theory Spec2Isabelle
  imports Complex_Main "HOL-Library.Sublist"
begin

section \<open>Strings\<close>

text \<open>
  A JavaScript string is a sequence of UTF-16 code units. It is modelled as a HOL
  \<open>string\<close>, one \<open>char\<close> per code unit, so the model covers the strings whose
  code units lie below 0x100. In that range the white space of \<open>String.prototype.trim\<close>
  and of the regular-expression class \<open>\s\<close> is TAB, LF, VT, FF, CR, SP and NBSP, and
  \<open>\d\<close> is the ten ASCII digits.
\<close>

abbreviation quote :: char where "quote \<equiv> CHR 0x22"

abbreviation backslash :: char where "backslash \<equiv> CHR 0x5C"

definition is_space :: "char \<Rightarrow> bool" where
  "is_space c = (c \<in> set [CHR 0x09, CHR 0x0A, CHR 0x0B, CHR 0x0C, CHR 0x0D, CHR 0x20, CHR 0xA0])"

definition is_digit :: "char \<Rightarrow> bool" where
  "is_digit c = (c \<in> set ''0123456789'')"

definition trim :: "string \<Rightarrow> string" where
  "trim s = rev (dropWhile is_space (rev (dropWhile is_space s)))"

definition startsWith :: "string \<Rightarrow> string \<Rightarrow> bool" where
  "startsWith s p = (take (length p) s = p)"

definition endsWith :: "string \<Rightarrow> string \<Rightarrow> bool" where
  "endsWith s p = (length p \<le> length s \<and> drop (length s - length p) s = p)"

section \<open>cleanJson\<close>

text \<open>
  \<open>cleaned.replace(/^```json\s*/, "")\<close> and \<open>cleaned.replace(/^```\s*/, "")\<close>: the
  anchored prefix and the white space after it are removed. The source applies them
  only under \<open>startsWith\<close>, and the function leaves other texts alone as the regular
  expression does.
\<close>

definition stripLeading :: "string \<Rightarrow> string \<Rightarrow> string" where
  "stripLeading p s = (if startsWith s p then dropWhile is_space (drop (length p) s) else s)"

text \<open>
  \<open>.replace(/\s*```$/, "")\<close>: the match must end at the end of the text, and the
  leftmost match takes all the white space in front of the final fence.
\<close>

definition stripTrailingFence :: "string \<Rightarrow> string" where
  "stripTrailingFence s =
     (if endsWith s ''```''
      then rev (dropWhile is_space (rev (take (length s - 3) s)))
      else s)"

text \<open>
  \<open>cleaned.replace(/,\s*}/g, "}")\<close> and \<open>cleaned.replace(/,\s*]/g, "]")\<close>, with the
  closing character as parameter \<open>c\<close>. The global replacement scans from the left; at a
  comma the greedy \<open>\s*\<close> takes the whole run of white space, the match succeeds when
  the next character is \<open>c\<close>, and the scan resumes behind the match.
\<close>

function replaceCommaBefore :: "char \<Rightarrow> string \<Rightarrow> string" where
  "replaceCommaBefore c [] = []"
| "replaceCommaBefore c (x # xs) =
     (if x = CHR '','' then
        (case dropWhile is_space xs of
           [] \<Rightarrow> x # replaceCommaBefore c xs
         | y # ys \<Rightarrow> if y = c then c # replaceCommaBefore c ys
                     else x # replaceCommaBefore c xs)
      else x # replaceCommaBefore c xs)"
  by pat_completeness auto

termination
proof (relation "measure (\<lambda>(c, s). length s)")
  fix c :: char and x :: char and xs y ys
  assume "dropWhile is_space xs = y # ys"
  then have "length (y # ys) \<le> length xs"
    by (metis length_dropWhile_le)
  then show "((c, ys), (c, x # xs)) \<in> measure (\<lambda>(c, s). length s)" by simp
qed auto

text \<open>
  \<open>cleaned.replace(/:\s*(\d{10,})/g, ': 10')\<close>: at a colon, the white space and then
  the whole run of digits are taken; with ten digits or more the match is replaced by
  \<open>: 10\<close> and the scan resumes behind the digits.
\<close>

function capNumbers :: "string \<Rightarrow> string" where
  "capNumbers [] = []"
| "capNumbers (x # xs) =
     (if x = CHR '':'' \<and> 10 \<le> length (takeWhile is_digit (dropWhile is_space xs))
      then '': 10'' @ capNumbers (dropWhile is_digit (dropWhile is_space xs))
      else x # capNumbers xs)"
  by pat_completeness auto

termination
proof (relation "measure length")
  fix x :: char and xs
  have "length (dropWhile is_digit (dropWhile is_space xs)) \<le> length (dropWhile is_space xs)"
    by (rule length_dropWhile_le)
  also have "\<dots> \<le> length xs" by (rule length_dropWhile_le)
  finally show "(dropWhile is_digit (dropWhile is_space xs), x # xs) \<in> measure length" by simp
qed auto

definition stripFence :: "string \<Rightarrow> string" where
  "stripFence cleaned =
     (if startsWith cleaned ''```json''
      then stripTrailingFence (stripLeading ''```json'' cleaned)
      else if startsWith cleaned ''```''
      then stripTrailingFence (stripLeading ''```'' cleaned)
      else cleaned)"

text \<open>The three replacements that follow the fence removal, in the order of the source.\<close>

definition fixCommasAndNumbers :: "string \<Rightarrow> string" where
  "fixCommasAndNumbers cleaned =
     capNumbers (replaceCommaBefore (CHR '']'') (replaceCommaBefore (CHR ''}'') cleaned))"

definition cleanJson :: "string \<Rightarrow> string" where
  "cleanJson text = fixCommasAndNumbers (stripFence (trim text))"

text \<open>
  Two scans that follow the words of the specification, not the code: whether a text has
  a comma that is followed, up to white space, by the closing character \<open>c\<close>, and
  whether it has a colon that is followed, up to white space, by ten digits or more. They
  are used to evaluate, on a given text, the condition that nothing is to be replaced.
\<close>

fun hasTrailingComma :: "char \<Rightarrow> string \<Rightarrow> bool" where
  "hasTrailingComma c [] = False"
| "hasTrailingComma c (x # xs) =
     ((x = CHR '','' \<and> (case dropWhile is_space xs of [] \<Rightarrow> False | y # ys \<Rightarrow> y = c))
      \<or> hasTrailingComma c xs)"

fun hasLongNumber :: "string \<Rightarrow> bool" where
  "hasLongNumber [] = False"
| "hasLongNumber (x # xs) =
     ((x = CHR '':'' \<and> 10 \<le> length (takeWhile is_digit (dropWhile is_space xs)))
      \<or> hasLongNumber xs)"

section \<open>JSON.parse\<close>

text \<open>
  \<open>JSON.parse\<close> is the platform's parser. It is modelled as a recogniser of the JSON
  grammar (ECMA-404) that returns the syntax tree of the text: a lexer over the
  characters and a pushdown parser over the tokens. Strings and numbers are kept as
  their lexemes (escape sequences are checked but not decoded, numbers are not
  converted), and an object keeps its members in source order. A text that is not in
  the grammar raises a \<open>SyntaxError\<close>; the error value carries the rejected text,
  which is what tells the error of one call from the error of another.
\<close>

datatype json =
    JNull | JBool bool | JNumber string | JString string
  | JArray "json list" | JObject "(string \<times> json) list"

datatype token =
    TLBrace | TRBrace | TLBrack | TRBrack | TComma | TColon
  | TString string | TNumber string | TTrue | TFalse | TNull

datatype error = SyntaxError string | TypeError string | Error string

definition is_json_ws :: "char \<Rightarrow> bool" where
  "is_json_ws c = (c \<in> set [CHR 0x09, CHR 0x0A, CHR 0x0D, CHR 0x20])"

definition is_hex :: "char \<Rightarrow> bool" where
  "is_hex c = (c \<in> set ''0123456789abcdefABCDEF'')"

text \<open>The rest of a string literal, behind its opening quote: the lexeme and the text behind
  the closing quote.\<close>

fun scanString :: "string \<Rightarrow> (string \<times> string) option" where
  "scanString [] = None"
| "scanString (c # cs) =
     (if c = quote then Some ([], cs)
      else if c = backslash then
        (case cs of
           [] \<Rightarrow> None
         | e # cs' \<Rightarrow>
             if e \<in> set [quote, backslash, CHR ''/'', CHR ''b'', CHR ''f'', CHR ''n'', CHR ''r'', CHR ''t'']
             then map_option (\<lambda>(s, r). (c # e # s, r)) (scanString cs')
             else if e = CHR ''u'' \<and> 4 \<le> length cs' \<and> list_all is_hex (take 4 cs')
             then map_option (\<lambda>(s, r). (c # e # take 4 cs' @ s, r)) (scanString (drop 4 cs'))
             else None)
      else if (of_char c :: nat) < 0x20 then None
      else map_option (\<lambda>(s, r). (c # s, r)) (scanString cs))"

text \<open>A number: \<open>-? (0 | [1-9][0-9]*) (. [0-9]+)? ([eE] [+-]? [0-9]+)?\<close>.\<close>

definition numInt :: "string \<Rightarrow> (string \<times> string) option" where
  "numInt s =
     (case s of
        [] \<Rightarrow> None
      | d # r \<Rightarrow> if d = CHR ''0'' then Some ([d], r)
                 else if is_digit d then Some (takeWhile is_digit s, dropWhile is_digit s)
                 else None)"

definition numDigits :: "string \<Rightarrow> (string \<times> string) option" where
  "numDigits s = (if takeWhile is_digit s = [] then None
                  else Some (takeWhile is_digit s, dropWhile is_digit s))"

definition numFrac :: "string \<Rightarrow> (string \<times> string) option" where
  "numFrac s =
     (case s of
        [] \<Rightarrow> Some ([], s)
      | d # r \<Rightarrow> if d = CHR ''.''
                 then map_option (\<lambda>(ds, r'). (d # ds, r')) (numDigits r)
                 else Some ([], s))"

definition numExp :: "string \<Rightarrow> (string \<times> string) option" where
  "numExp s =
     (case s of
        [] \<Rightarrow> Some ([], s)
      | e # r \<Rightarrow>
          if e = CHR ''e'' \<or> e = CHR ''E'' then
            (case r of
               [] \<Rightarrow> None
             | g # r' \<Rightarrow> if g = CHR ''+'' \<or> g = CHR ''-''
                          then map_option (\<lambda>(ds, r''). (e # g # ds, r'')) (numDigits r')
                          else map_option (\<lambda>(ds, r''). (e # ds, r'')) (numDigits r))
          else Some ([], s))"

definition scanNumber :: "string \<Rightarrow> (string \<times> string) option" where
  "scanNumber s =
     (case (case s of [] \<Rightarrow> ([], s) | m # r \<Rightarrow> if m = CHR ''-'' then ([m], r) else ([], s)) of
        (sg, r0) \<Rightarrow>
          (case numInt r0 of None \<Rightarrow> None
           | Some (ip, r1) \<Rightarrow>
             (case numFrac r1 of None \<Rightarrow> None
              | Some (fp, r2) \<Rightarrow>
                (case numExp r2 of None \<Rightarrow> None
                 | Some (ep, r3) \<Rightarrow> Some (sg @ ip @ fp @ ep, r3)))))"

lemma scanString_length: "scanString cs = Some (s, r) \<Longrightarrow> length r < length cs"
proof (induction cs arbitrary: s r rule: scanString.induct)
  case 1
  then show ?case by simp
next
  case (2 c cs)
  then show ?case
    by (fastforce split: if_splits list.splits)
qed

lemma numDigits_length: "numDigits s = Some (ds, r) \<Longrightarrow> length r \<le> length s"
  by (auto simp: numDigits_def split: if_splits intro: length_dropWhile_le)

lemma numInt_length: "numInt s = Some (ds, r) \<Longrightarrow> length r < length s"
  unfolding numInt_def
  by (auto split: list.splits if_splits simp: less_Suc_eq_le length_dropWhile_le)

lemma numFrac_length: "numFrac s = Some (ds, r) \<Longrightarrow> length r \<le> length s"
  unfolding numFrac_def
  by (auto split: list.splits if_splits dest!: numDigits_length)

lemma numExp_length: "numExp s = Some (ds, r) \<Longrightarrow> length r \<le> length s"
  unfolding numExp_def
  by (auto split: list.splits if_splits dest!: numDigits_length)

lemma scanNumber_length: "scanNumber s = Some (lx, r) \<Longrightarrow> length r < length s"
  unfolding scanNumber_def
  by (auto split: list.splits if_splits option.splits prod.splits
           dest!: numInt_length numFrac_length numExp_length)

function tokenize :: "string \<Rightarrow> token list option" where
  "tokenize [] = Some []"
| "tokenize (c # cs) =
     (if is_json_ws c then tokenize cs
      else if c = CHR ''{'' then map_option (Cons TLBrace) (tokenize cs)
      else if c = CHR ''}'' then map_option (Cons TRBrace) (tokenize cs)
      else if c = CHR ''['' then map_option (Cons TLBrack) (tokenize cs)
      else if c = CHR '']'' then map_option (Cons TRBrack) (tokenize cs)
      else if c = CHR '','' then map_option (Cons TComma) (tokenize cs)
      else if c = CHR '':'' then map_option (Cons TColon) (tokenize cs)
      else if c = quote then
        (case scanString cs of
           None \<Rightarrow> None
         | Some (s, r) \<Rightarrow> map_option (Cons (TString s)) (tokenize r))
      else if c = CHR ''-'' \<or> is_digit c then
        (case scanNumber (c # cs) of
           None \<Rightarrow> None
         | Some (lx, r) \<Rightarrow> map_option (Cons (TNumber lx)) (tokenize r))
      else if startsWith (c # cs) ''true'' then map_option (Cons TTrue) (tokenize (drop 3 cs))
      else if startsWith (c # cs) ''false'' then map_option (Cons TFalse) (tokenize (drop 4 cs))
      else if startsWith (c # cs) ''null'' then map_option (Cons TNull) (tokenize (drop 3 cs))
      else None)"
  by pat_completeness auto

termination
  apply (relation "measure length")
  apply simp_all
   apply (metis scanString_length less_SucI)
  apply (metis scanNumber_length length_Cons)
  done

text \<open>
  The parser keeps a stack of the containers that are open and what it expects next.
  Each token is one step; a completed value is delivered to the innermost open
  container, or ends the text when none is open.
\<close>

datatype frame =
    InArray "json list"
  | InObject "(string \<times> json) list"
  | InMember "(string \<times> json) list" string

datatype expect = Value | ValueOrClose | KeyOrClose | Key | Colon | CommaOrClose | End json

fun deliver :: "json \<Rightarrow> frame list \<Rightarrow> (expect \<times> frame list) option" where
  "deliver v [] = Some (End v, [])"
| "deliver v (InArray es # st) = Some (CommaOrClose, InArray (es @ [v]) # st)"
| "deliver v (InMember ms k # st) = Some (CommaOrClose, InObject (ms @ [(k, v)]) # st)"
| "deliver v (InObject ms # st) = None"

fun startValue :: "token \<Rightarrow> frame list \<Rightarrow> (expect \<times> frame list) option" where
  "startValue TNull st = deliver JNull st"
| "startValue TTrue st = deliver (JBool True) st"
| "startValue TFalse st = deliver (JBool False) st"
| "startValue (TNumber lx) st = deliver (JNumber lx) st"
| "startValue (TString s) st = deliver (JString s) st"
| "startValue TLBrack st = Some (ValueOrClose, InArray [] # st)"
| "startValue TLBrace st = Some (KeyOrClose, InObject [] # st)"
| "startValue _ st = None"

fun closeArray :: "frame list \<Rightarrow> (expect \<times> frame list) option" where
  "closeArray (InArray es # st) = deliver (JArray es) st"
| "closeArray _ = None"

fun closeObject :: "frame list \<Rightarrow> (expect \<times> frame list) option" where
  "closeObject (InObject ms # st) = deliver (JObject ms) st"
| "closeObject _ = None"

fun readKey :: "token \<Rightarrow> frame list \<Rightarrow> (expect \<times> frame list) option" where
  "readKey (TString k) (InObject ms # st) = Some (Colon, InMember ms k # st)"
| "readKey _ _ = None"

fun parseStep :: "expect \<Rightarrow> frame list \<Rightarrow> token \<Rightarrow> (expect \<times> frame list) option" where
  "parseStep Value st t = startValue t st"
| "parseStep ValueOrClose st t = (if t = TRBrack then closeArray st else startValue t st)"
| "parseStep KeyOrClose st t = (if t = TRBrace then closeObject st else readKey t st)"
| "parseStep Key st t = readKey t st"
| "parseStep Colon st t = (if t = TColon then Some (Value, st) else None)"
| "parseStep CommaOrClose st t =
     (if t = TRBrack then closeArray st
      else if t = TRBrace then closeObject st
      else if t = TComma then
        (case st of
           InArray es # st' \<Rightarrow> Some (Value, st)
         | InObject ms # st' \<Rightarrow> Some (Key, st)
         | _ \<Rightarrow> None)
      else None)"
| "parseStep (End v) st t = None"

fun parseRun :: "expect \<Rightarrow> frame list \<Rightarrow> token list \<Rightarrow> (expect \<times> frame list) option" where
  "parseRun e st [] = Some (e, st)"
| "parseRun e st (t # ts) =
     (case parseStep e st t of
        None \<Rightarrow> None
      | Some (e', st') \<Rightarrow> parseRun e' st' ts)"

text \<open>The text is accepted when its last token completes the top-level value.\<close>

definition parseTokens :: "token list \<Rightarrow> json option" where
  "parseTokens ts =
     (case parseRun Value [] ts of
        Some (End v, []) \<Rightarrow> Some v
      | _ \<Rightarrow> None)"

definition JSON_parse :: "string \<Rightarrow> error + json" where
  "JSON_parse text =
     (case tokenize text of
        None \<Rightarrow> Inl (SyntaxError text)
      | Some ts \<Rightarrow>
          (case parseTokens ts of
             None \<Rightarrow> Inl (SyntaxError text)
           | Some v \<Rightarrow> Inr v))"

section \<open>safeParse\<close>

text \<open>
  The scan of the repair pass. The state is the stack of expected closers (its head is
  the top, the last element of the source's array), \<open>inString\<close> and \<open>escape\<close>; one
  step is one iteration of the \<open>for\<close> loop.
\<close>

fun scanStep :: "string \<times> bool \<times> bool \<Rightarrow> char \<Rightarrow> string \<times> bool \<times> bool" where
  "scanStep (stack, inString, escape) ch =
     (let inString' = (if ch = quote \<and> \<not> escape then \<not> inString else inString);
          stack' =
            (if \<not> inString' then
               (if ch = CHR ''{'' then CHR ''}'' # stack
                else if ch = CHR ''['' then CHR '']'' # stack
                else if ch = CHR ''}'' \<or> ch = CHR '']'' then
                  (case stack of
                     [] \<Rightarrow> stack
                   | lastc # rest \<Rightarrow> if lastc = ch then rest else stack)
                else stack)
             else stack);
          escape' = (if ch = backslash then \<not> escape else False)
      in (stack', inString', escape'))"

definition scanStructures :: "string \<Rightarrow> string \<times> bool \<times> bool" where
  "scanStructures s = foldl scanStep ([], False, False) s"

text \<open>Step 1 of the repair: a closing quote when the number of quotes is odd and the text
  does not end in backslash-quote.\<close>

definition closeString :: "string \<Rightarrow> string" where
  "closeString repaired =
     (let quoteCount = length (filter (\<lambda>c. c = quote) repaired);
          isLastQuoteEscaped = endsWith repaired [backslash, quote]
      in if quoteCount mod 2 \<noteq> 0 \<and> \<not> isLastQuoteEscaped then repaired @ [quote] else repaired)"

text \<open>Step 2: the closers left on the stack are appended, top first.\<close>

definition repairJson :: "string \<Rightarrow> string" where
  "repairJson jsonString =
     (let repaired = closeString (trim jsonString)
      in repaired @ fst (scanStructures repaired))"

text \<open>
  \<open>safeParse\<close> takes the parser as its first argument and returns, with its result,
  the texts it handed to the parser, in order. The \<open>Inl\<close> of the last line is the
  \<open>throw e\<close> of the inner \<open>catch\<close>: the error of the first call.
\<close>

definition safeParse :: "(string \<Rightarrow> 'e + 'v) \<Rightarrow> string \<Rightarrow> string list \<times> ('e + 'v)" where
  "safeParse parse jsonString =
     (case parse jsonString of
        Inr v \<Rightarrow> ([jsonString], Inr v)
      | Inl e \<Rightarrow>
          (case parse (repairJson jsonString) of
             Inr v \<Rightarrow> ([jsonString, repairJson jsonString], Inr v)
           | Inl e2 \<Rightarrow> ([jsonString, repairJson jsonString], Inl e)))"

section \<open>The repair pass and the grammar\<close>









fun awaiting :: "frame \<Rightarrow> bool" where
  "awaiting (InObject ms) = False"
| "awaiting _ = True"

fun closable :: "expect \<Rightarrow> frame list \<Rightarrow> bool" where
  "closable ValueOrClose (InArray es # st) = list_all awaiting st"
| "closable KeyOrClose (InObject ms # st) = list_all awaiting st"
| "closable CommaOrClose (InArray es # st) = list_all awaiting st"
| "closable CommaOrClose (InObject ms # st) = list_all awaiting st"
| "closable (End v) [] = True"
| "closable _ _ = False"

fun wellFormed :: "expect \<Rightarrow> frame list \<Rightarrow> bool" where
  "wellFormed Value st = list_all awaiting st"
| "wellFormed Key (InObject ms # st) = list_all awaiting st"
| "wellFormed Colon (InMember ms k # st) = list_all awaiting st"
| "wellFormed e st = closable e st"

section \<open>The simulated progress timer\<close>

text \<open>
  \<open>startProgressSimulation\<close> (App.tsx, lines 36 to 48) computes with JavaScript numbers,
  which are IEEE doubles. The model takes the arithmetic as a parameter: the operations
  \<open>+\<close>, \<open>-\<close> and \<open>/\<close> and the constants \<open>0.1\<close> and \<open>50\<close> on a linearly ordered type, so
  that \<open>Math.max\<close>, \<open>Math.min\<close> and \<open>>=\<close> are \<open>max\<close>, \<open>min\<close> and \<open>\<ge>\<close> of the order.
\<close>

record 'a arith =
  add :: "'a \<Rightarrow> 'a \<Rightarrow> 'a"
  sub :: "'a \<Rightarrow> 'a \<Rightarrow> 'a"
  divide_by :: "'a \<Rightarrow> 'a \<Rightarrow> 'a"
  tenth :: 'a
  fifty :: 'a

text \<open>The updater that the interval callback passes to \<open>setProgress\<close>: one tick.\<close>

definition progressTick :: "('a::linorder) arith \<Rightarrow> 'a \<Rightarrow> 'a \<Rightarrow> 'a" where
  "progressTick ar capAt prev =
     (if prev \<ge> capAt then prev
      else (let increment = max (tenth ar) (divide_by ar (sub ar capAt prev) (fifty ar))
            in min capAt (add ar prev increment)))"

text \<open>The progress value after \<open>n\<close> ticks of a timer started by
  \<open>startProgressSimulation(startAt, capAt)\<close>, which first sets the value to \<open>startAt\<close>.\<close>

definition progressAfter :: "('a::linorder) arith \<Rightarrow> 'a \<Rightarrow> 'a \<Rightarrow> nat \<Rightarrow> 'a" where
  "progressAfter ar startAt capAt n = (progressTick ar capAt ^^ n) startAt"

text \<open>Exact rational arithmetic, an instance of the parameter on which the model can be
  evaluated.\<close>

definition exact :: "rat arith" where
  "exact = \<lparr> add = (+), sub = (-), divide_by = (/), tenth = 1 / 10, fifty = 50 \<rparr>"

section \<open>JavaScript values\<close>

text \<open>
  The values that \<open>JSON.parse\<close> and the configuration parser deliver. A number is kept as
  the string that \<open>String\<close> makes of it, which is all the code under study reads of a
  number; an object is the list of its own properties in insertion order.
\<close>

datatype jsval =
    JSUndefined | JSNull | JSBool bool | JSNumber string | JSString string
  | JSArray "jsval list" | JSObject "(string \<times> jsval) list"

text \<open>\<open>Array.prototype.join\<close>.\<close>

fun joinWith :: "string \<Rightarrow> string list \<Rightarrow> string" where
  "joinWith sep [] = []"
| "joinWith sep [x] = x"
| "joinWith sep (x # y # ys) = x @ sep @ joinWith sep (y # ys)"

text \<open>\<open>String(v)\<close>. An array is the join of its elements by commas, with \<open>undefined\<close> and
  \<open>null\<close> as empty strings; a plain object is \<open>[object Object]\<close>.\<close>

fun toStr :: "jsval \<Rightarrow> string" where
  "toStr JSUndefined = ''undefined''"
| "toStr JSNull = ''null''"
| "toStr (JSBool b) = (if b then ''true'' else ''false'')"
| "toStr (JSNumber s) = s"
| "toStr (JSString s) = s"
| "toStr (JSArray xs) =
     joinWith '','' (map (\<lambda>x. if x = JSUndefined \<or> x = JSNull then [] else toStr x) xs)"
| "toStr (JSObject kvs) = ''[object Object]''"

text \<open>\<open>ToBoolean\<close>: the falsy values are \<open>undefined\<close>, \<open>null\<close>, \<open>false\<close>, the numbers
  \<open>0\<close> and \<open>NaN\<close>, and the empty string.\<close>

definition truthy :: "jsval \<Rightarrow> bool" where
  "truthy v = (case v of
      JSUndefined \<Rightarrow> False | JSNull \<Rightarrow> False | JSBool b \<Rightarrow> b
    | JSNumber s \<Rightarrow> s \<noteq> ''0'' \<and> s \<noteq> ''NaN''
    | JSString s \<Rightarrow> s \<noteq> []
    | _ \<Rightarrow> True)"

definition isArray :: "jsval \<Rightarrow> bool" where
  "isArray v = (case v of JSArray xs \<Rightarrow> True | _ \<Rightarrow> False)"

text \<open>Decimal notation of integers, for the numbers that the sanitization pass writes.\<close>

definition digitChar :: "nat \<Rightarrow> char" where
  "digitChar d = ''0123456789'' ! d"

fun decimal :: "nat \<Rightarrow> string" where
  "decimal n = (if n < 10 then [digitChar n] else decimal (n div 10) @ [digitChar (n mod 10)])"

declare decimal.simps [simp del]

definition showInt :: "int \<Rightarrow> string" where
  "showInt i = (if i < 0 then CHR ''-'' # decimal (nat (- i)) else decimal (nat i))"

text \<open>Reading and writing an own property, and the properties that a spread \<open>{...v}\<close>
  copies. Reading a property of \<open>undefined\<close> or \<open>null\<close> throws a \<open>TypeError\<close>; a
  property that is absent reads as \<open>undefined\<close>. An array and a string have their indices
  as properties.\<close>

definition lookupProp :: "(string \<times> jsval) list \<Rightarrow> string \<Rightarrow> jsval" where
  "lookupProp kvs k = (case map_of kvs k of None \<Rightarrow> JSUndefined | Some v \<Rightarrow> v)"

definition setProp :: "(string \<times> jsval) list \<Rightarrow> string \<Rightarrow> jsval \<Rightarrow> (string \<times> jsval) list" where
  "setProp kvs k v =
     (if k \<in> fst ` set kvs then map (\<lambda>(k', v'). if k' = k then (k', v) else (k', v')) kvs
      else kvs @ [(k, v)])"

definition indexed :: "'a list \<Rightarrow> (string \<times> 'a) list" where
  "indexed xs = zip (map decimal [0..<length xs]) xs"

definition getProp :: "jsval \<Rightarrow> string \<Rightarrow> error + jsval" where
  "getProp v k =
     (case v of
        JSUndefined \<Rightarrow> Inl (TypeError k)
      | JSNull \<Rightarrow> Inl (TypeError k)
      | JSObject kvs \<Rightarrow> Inr (lookupProp kvs k)
      | JSArray xs \<Rightarrow> Inr (lookupProp (indexed xs) k)
      | JSString s \<Rightarrow> Inr (lookupProp (indexed (map (\<lambda>c. JSString [c]) s)) k)
      | _ \<Rightarrow> Inr JSUndefined)"

definition spreadProps :: "jsval \<Rightarrow> (string \<times> jsval) list" where
  "spreadProps v =
     (case v of
        JSObject kvs \<Rightarrow> kvs
      | JSArray xs \<Rightarrow> indexed xs
      | JSString s \<Rightarrow> indexed (map (\<lambda>c. JSString [c]) s)
      | _ \<Rightarrow> [])"

text \<open>
  \<open>parseInt(string)\<close> without a radix (ECMA-262, 19.2.5): leading white space is
  skipped, then an optional sign, then an optional \<open>0x\<close> prefix that selects radix 16;
  the longest prefix of digits of the radix is the number, and with no digit the result
  is \<open>NaN\<close>, here \<open>None\<close>. The value is kept as a mathematical integer: the rounding to a
  double that the platform applies to long literals keeps the value on the same side of
  1, 5 and 10, which is all that the clamping reads.
\<close>

definition radixDigit :: "nat \<Rightarrow> char \<Rightarrow> nat option" where
  "radixDigit R c =
     (case map_of (zip ''0123456789abcdef'' [0..<16] @ zip ''ABCDEF'' [10..<16]) c of
        None \<Rightarrow> None
      | Some d \<Rightarrow> if d < R then Some d else None)"

definition parseInt :: "string \<Rightarrow> int option" where
  "parseInt inputString =
     (let S = dropWhile is_space inputString;
          sign = (if startsWith S ''-'' then - 1 else 1 :: int);
          S = (if startsWith S ''-'' \<or> startsWith S ''+'' then drop 1 S else S);
          R = (if startsWith S ''0x'' \<or> startsWith S ''0X'' then 16 else 10);
          S = (if startsWith S ''0x'' \<or> startsWith S ''0X'' then drop 2 S else S);
          Z = takeWhile (\<lambda>c. radixDigit R c \<noteq> None) S
      in if Z = [] then None
         else Some (sign * foldl (\<lambda>a c. a * int R + int (the (radixDigit R c))) 0 Z))"

text \<open>\<open>parseInt(v) || dflt\<close>: the argument is converted by \<open>String\<close>, and \<open>NaN\<close> and \<open>0\<close> are
  falsy.\<close>

definition parseIntOr :: "jsval \<Rightarrow> int \<Rightarrow> int" where
  "parseIntOr v dflt =
     (case parseInt (toStr v) of
        None \<Rightarrow> dflt
      | Some n \<Rightarrow> if n = 0 then dflt else n)"

section \<open>The data handed to the force simulation\<close>

text \<open>\<open>Array.prototype.map\<close> with a callback that may throw: the first error ends the
  map.\<close>

fun mapE :: "('a \<Rightarrow> error + 'b) \<Rightarrow> 'a list \<Rightarrow> error + 'b list" where
  "mapE f [] = Inr []"
| "mapE f (x # xs) =
     (case f x of
        Inl e \<Rightarrow> Inl e
      | Inr y \<Rightarrow> (case mapE f xs of Inl e \<Rightarrow> Inl e | Inr ys \<Rightarrow> Inr (y # ys)))"

text \<open>
  The objects that ForceGraph.tsx (lines 61 to 78) builds for the simulation: the
  properties copied by the spread, and the fields that the object literal sets after it.
\<close>

record simNode =
  nodeProps :: "(string \<times> jsval) list"
  nodeId :: string

record simLink =
  linkProps :: "(string \<times> jsval) list"
  source :: string
  target :: string

text \<open>\<open>typeof v === 'object'\<close>, which holds of \<open>null\<close>, arrays and objects.\<close>

definition typeofObject :: "jsval \<Rightarrow> bool" where
  "typeofObject v = (case v of JSNull \<Rightarrow> True | JSArray xs \<Rightarrow> True | JSObject kvs \<Rightarrow> True | _ \<Rightarrow> False)"

text \<open>\<open>String(n.id)\<close>.\<close>

definition nodeIdString :: "jsval \<Rightarrow> error + string" where
  "nodeIdString n = (case getProp n ''id'' of Inl e \<Rightarrow> Inl e | Inr v \<Rightarrow> Inr (toStr v))"

text \<open>\<open>({ ...d, id: String(d.id) })\<close>.\<close>

definition simulationNode :: "jsval \<Rightarrow> error + simNode" where
  "simulationNode d =
     (case nodeIdString d of
        Inl e \<Rightarrow> Inl e
      | Inr i \<Rightarrow> Inr \<lparr> nodeProps = spreadProps d, nodeId = i \<rparr>)"

text \<open>\<open>typeof e === 'object' ? String(e.id) : String(e)\<close>.\<close>

definition endpointString :: "jsval \<Rightarrow> error + string" where
  "endpointString v = (if typeofObject v then nodeIdString v else Inr (toStr v))"

text \<open>The callback of \<open>data.links.map\<close>.\<close>

definition simulationLink :: "jsval \<Rightarrow> error + simLink" where
  "simulationLink d =
     (case getProp d ''source'' of
        Inl e \<Rightarrow> Inl e
      | Inr s \<Rightarrow>
        (case endpointString s of
           Inl e \<Rightarrow> Inl e
         | Inr src \<Rightarrow>
           (case getProp d ''target'' of
              Inl e \<Rightarrow> Inl e
            | Inr t \<Rightarrow>
              (case endpointString t of
                 Inl e \<Rightarrow> Inl e
               | Inr tgt \<Rightarrow> Inr \<lparr> linkProps = spreadProps d, source = src, target = tgt \<rparr>))))"

text \<open>
  The sanitization at the head of the effect. The effect returns at once, \<open>None\<close>, when
  there are no nodes or the zoom group is not mounted; otherwise it delivers the nodes and
  the filtered links that are handed to \<open>d3.forceSimulation\<close> and \<open>d3.forceLink\<close> and
  from which the line elements are built.
\<close>

definition simulationData ::
    "bool \<Rightarrow> jsval list \<Rightarrow> jsval list \<Rightarrow> error + (simNode list \<times> simLink list) option" where
  "simulationData mounted dataNodes dataLinks =
     (if dataNodes = [] \<or> \<not> mounted then Inr None
      else
        (case mapE nodeIdString dataNodes of
           Inl e \<Rightarrow> Inl e
         | Inr validNodeIds \<Rightarrow>
           (case mapE simulationNode dataNodes of
              Inl e \<Rightarrow> Inl e
            | Inr simNodes \<Rightarrow>
              (case mapE simulationLink dataLinks of
                 Inl e \<Rightarrow> Inl e
               | Inr simLinks \<Rightarrow>
                   Inr (Some (simNodes,
                     filter (\<lambda>d. source d \<in> set validNodeIds \<and> target d \<in> set validNodeIds)
                       simLinks))))))"

section \<open>The generative-model service\<close>

text \<open>
  The part of a response of \<open>ai.models.generateContent\<close> that the code reads. Every
  field may be absent.
\<close>

record blob =
  mimeType :: "string option"
  blobData :: "string option"

record part =
  inlineData :: "blob option"

record content =
  parts :: "part list option"

record candidate =
  candidateContent :: "content option"

record response =
  responseText :: "string option"
  candidates :: "candidate list option"

text \<open>A request: the model, the prompt and the configuration.\<close>

datatype schema = SObject "(string \<times> schema) list" | SArray schema | SString | SInteger

record config =
  googleSearch :: bool
  thinkingBudget :: "nat option"
  responseMimeType :: "string option"
  responseSchema :: "schema option"
  aspectRatio :: "string option"

record request =
  model :: string
  contents :: string
  requestConfig :: config

text \<open>
  The service is a parameter of the model: a function of the state of the outside world
  and the request, which answers with a response or throws. The constructor
  \<open>new GoogleGenAI\<close> is a parameter as well, \<open>newAI\<close> below, since it runs outside any
  \<open>try\<close> block.
\<close>

type_synonym 's service = "'s \<Rightarrow> request \<Rightarrow> (error + response) \<times> 's"

definition noConfig :: config where
  "noConfig = \<lparr> googleSearch = False, thinkingBudget = None, responseMimeType = None,
                 responseSchema = None, aspectRatio = None \<rparr>"

subsection \<open>generateSlideImage\<close>


text \<open>The interpolation \<open>${v}\<close> of a string that may be \<open>undefined\<close>.\<close>

definition templateString :: "string option \<Rightarrow> string" where
  "templateString v = (case v of None \<Rightarrow> ''undefined'' | Some s \<Rightarrow> s)"







subsection \<open>analyzeChannelContent\<close>

text \<open>
  The four prompts of \<open>analyzeChannelContent\<close> (the service module, lines 86 to 310), line by line
  as in the template literals of the source.
\<close>

definition discoveryPrompt :: "string \<Rightarrow> string" where
  \<open>discoveryPrompt channelUrl =
    joinWith [CHR 0x0A]
     ['''',
      ''    I need to identify the YouTube channel associated with this URL or input: "'' @ channelUrl @ ''".'',
      ''    '',
      ''    Task:'',
      ''    1. Identify the exact Channel Name and Creator.'',
      ''    2. Identify 5 of the most popular, controversial, or intellectually significant videos from this channel.'',
      ''    '',
      ''    Return a concise list containing:'',
      ''    - Channel Name'',
      ''    - List of 5 Video Titles'',
      ''  '']\<close>

definition analysisPrompt :: "string option \<Rightarrow> string" where
  \<open>analysisPrompt discoveryData =
    joinWith [CHR 0x0A]
     ['''',
      ''    Based on the following channel discovery data:'',
      ''    '' @ templateString discoveryData,
      '''',
      ''    Perform a "Deep Forensic Scan" of the identified videos.'',
      ''    '',
      ''    Task:'',
      ''    1. For EACH of the 5 videos, use Google Search to find detailed summaries, transcripts, or commentary to understand the *exact* arguments made.'',
      ''    2. Synthesize the channel's core recurring themes, mental models, and philosophy based *only* on these videos.'',
      ''    3. Determine the "Relevance" (centrality to worldview) and "Popularity" (audience reception) of these themes.'',
      '''',
      ''    Provide a comprehensive text analysis that includes the detailed video summaries and the thematic breakdown.'',
      ''  '']\<close>

definition videoPrompt :: "string \<Rightarrow> string" where
  \<open>videoPrompt fullAnalysis =
    joinWith [CHR 0x0A]
     ['''',
      ''    Based on this analysis:'',
      ''    '' @ take 25000 fullAnalysis @ '' '',
      '''',
      ''    Generate a JSON object containing an array of the 5 videos analyzed.'',
      ''    Each video must have a "title" and a "summary" (2-3 sentences max).'',
      '''',
      ''    Output PURE JSON.'',
      ''  '']\<close>

definition graphPrompt :: "(jsval list \<Rightarrow> string) \<Rightarrow> string \<Rightarrow> jsval list \<Rightarrow> string" where
  \<open>graphPrompt stringify fullAnalysis videos =
    joinWith [CHR 0x0A]
     ['''',
      ''    Context: Forensic Analysis of a YouTube channel.'',
      ''    Analysis Data: '' @ take 20000 fullAnalysis,
      ''    Identified Videos: '' @ stringify videos,
      '''',
      ''    Task: Create a directed knowledge graph representing the channel's worldview.'',
      '''',
      ''    Generate a JSON object containing:'',
      ''    1. "graph": '',
      ''       - "nodes": Array of objects (Max 12 nodes total).'',
      ''          - "id": Topic Name (Unique String, Max 4 words).'',
      ''          - "group": 1 (Core Philosophy), 2 (Major Concepts), 3 (Specific Arguments).'',
      ''          - "desc": Short 1-sentence description (Max 15 words).'',
      ''          - "longDescription": A concise explanation (max 2 sentences) of this node's role.'',
      ''          - "relevance": Integer from 1 to 10. **MUST BE LESS THAN 11**.'',
      ''          - "popularity": Integer from 1 to 10. **MUST BE LESS THAN 11**.'',
      ''       - "links": Array of objects { "source": "Topic Name", "target": "Topic Name", "value": 1-5 }. '',
      ''          **CRITICAL**: The graph MUST be contiguous (fully connected). Use the exact "id" strings from nodes for source/target.'',
      ''          **VALUE GUIDE**: '',
      ''            1: Loose thematic connection.'',
      ''            3: Strong conceptual link.'',
      ''            5: Critical dependency (Target directly derived from Source).'',
      ''    2. "summary": A one-paragraph executive summary of the channel's worldview.'',
      '''',
      ''    Output PURE JSON only. Ensure numerical values are standard Integers (e.g. 5, not 500000).'',
      ''  '']\<close>

text \<open>The response schemas and the four requests.\<close>

definition videoSchema :: schema where
  "videoSchema =
     SObject [(''videos'', SArray (SObject [(''title'', SString), (''summary'', SString)]))]"

definition graphSchema :: schema where
  "graphSchema =
     SObject
      [(''graph'', SObject
         [(''nodes'', SArray (SObject
            [(''id'', SString), (''group'', SInteger), (''desc'', SString),
             (''longDescription'', SString), (''relevance'', SInteger),
             (''popularity'', SInteger)])),
          (''links'', SArray (SObject
            [(''source'', SString), (''target'', SString), (''value'', SInteger)]))]),
       (''summary'', SString)]"

definition discoveryRequest :: "string \<Rightarrow> request" where
  "discoveryRequest channelUrl =
     \<lparr> model = ''gemini-3-pro-preview'',
       contents = discoveryPrompt channelUrl,
       requestConfig = noConfig \<lparr> googleSearch := True \<rparr> \<rparr>"

definition analysisRequest :: "string option \<Rightarrow> request" where
  "analysisRequest discoveryData =
     \<lparr> model = ''gemini-3-pro-preview'',
       contents = analysisPrompt discoveryData,
       requestConfig = noConfig \<lparr> googleSearch := True, thinkingBudget := Some 2048 \<rparr> \<rparr>"

definition videoRequest :: "string \<Rightarrow> request" where
  "videoRequest fullAnalysis =
     \<lparr> model = ''gemini-3-flash-preview'',
       contents = videoPrompt fullAnalysis,
       requestConfig = noConfig \<lparr> responseMimeType := Some ''application/json'',
                                 responseSchema := Some videoSchema \<rparr> \<rparr>"

definition graphRequest :: "(jsval list \<Rightarrow> string) \<Rightarrow> string \<Rightarrow> jsval list \<Rightarrow> request" where
  "graphRequest stringify fullAnalysis videos =
     \<lparr> model = ''gemini-3-flash-preview'',
       contents = graphPrompt stringify fullAnalysis videos,
       requestConfig = noConfig \<lparr> responseMimeType := Some ''application/json'',
                                 responseSchema := Some graphSchema \<rparr> \<rparr>"

text \<open>The graph that is returned, and the trace of a run: the progress callbacks and the
  requests, in the order in which they happen.\<close>

record topicGraphData =
  nodes :: "jsval list"
  links :: "jsval list"
  summary :: jsval

datatype event = Progress string nat | Request request

definition requestsOf :: "event list \<Rightarrow> request list" where
  "requestsOf evs = concat (map (\<lambda>e. case e of Request r \<Rightarrow> [r] | Progress m p \<Rightarrow> []) evs)"

text \<open>\<open>v?.k\<close>.\<close>

definition optionalChain :: "jsval \<Rightarrow> string \<Rightarrow> error + jsval" where
  "optionalChain v k = (if v = JSUndefined \<or> v = JSNull then Inr JSUndefined else getProp v k)"

text \<open>\<open>Math.min(hi, Math.max(1, parseInt(v) || dflt))\<close>.\<close>

definition clampScore :: "int \<Rightarrow> int \<Rightarrow> jsval \<Rightarrow> jsval" where
  "clampScore hi dflt v = JSNumber (showInt (min hi (max 1 (parseIntOr v dflt))))"

text \<open>The callbacks of the sanitization pass (lines 283 to 295).\<close>

definition sanitizeNode :: "jsval \<Rightarrow> error + jsval" where
  "sanitizeNode node =
     (case getProp node ''relevance'' of
        Inl e \<Rightarrow> Inl e
      | Inr r \<Rightarrow>
          (case getProp node ''popularity'' of
             Inl e \<Rightarrow> Inl e
           | Inr p \<Rightarrow>
               Inr (JSObject
                     (setProp (setProp (spreadProps node) ''relevance'' (clampScore 10 5 r))
                        ''popularity'' (clampScore 10 5 p)))))"

definition sanitizeLink :: "jsval \<Rightarrow> error + jsval" where
  "sanitizeLink link =
     (case getProp link ''value'' of
        Inl e \<Rightarrow> Inl e
      | Inr v \<Rightarrow> Inr (JSObject (setProp (spreadProps link) ''value'' (clampScore 5 3 v))))"

definition elements :: "jsval \<Rightarrow> jsval list" where
  "elements v = (case v of JSArray xs \<Rightarrow> xs | _ \<Rightarrow> [])"

text \<open>The body of the last \<open>try\<close> block behind \<open>safeParse\<close>.\<close>

definition graphOf :: "jsval \<Rightarrow> error + topicGraphData" where
  "graphOf parsedGraph =
     (case optionalChain parsedGraph ''graph'' of
        Inl e \<Rightarrow> Inl e
      | Inr g \<Rightarrow>
        (case optionalChain g ''nodes'' of
           Inl e \<Rightarrow> Inl e
         | Inr ns \<Rightarrow>
             if \<not> isArray ns then Inl (Error ''Model failed to generate graph structure.'')
             else
               (case mapE sanitizeNode (elements ns) of
                  Inl e \<Rightarrow> Inl e
                | Inr sanitizedNodes \<Rightarrow>
                  (case getProp g ''links'' of
                     Inl e \<Rightarrow> Inl e
                   | Inr ls \<Rightarrow>
                     (case mapE sanitizeLink (if isArray ls then elements ls else []) of
                        Inl e \<Rightarrow> Inl e
                      | Inr sanitizedLinks \<Rightarrow>
                        (case getProp parsedGraph ''summary'' of
                           Inl e \<Rightarrow> Inl e
                         | Inr s \<Rightarrow>
                             Inr \<lparr> nodes = sanitizedNodes, links = sanitizedLinks,
                                   summary = (if truthy s then s
                                              else JSString ''No summary available.'') \<rparr>))))))"

text \<open>The last \<open>try\<close> block: every error is replaced by the fixed error of the
  \<open>catch\<close>.\<close>

definition buildGraph :: "(string \<Rightarrow> error + jsval) \<Rightarrow> string \<Rightarrow> error + topicGraphData" where
  "buildGraph parse graphJson =
     (case (case snd (safeParse parse graphJson) of
              Inl e \<Rightarrow> Inl e
            | Inr parsedGraph \<Rightarrow> graphOf parsedGraph) of
        Inl e \<Rightarrow> Inl (Error ''Failed to construct topic graph. The model output was malformed.'')
      | Inr g \<Rightarrow> Inr g)"

text \<open>The \<open>try\<close> block that parses the video list.\<close>

definition parseVideos :: "(string \<Rightarrow> error + jsval) \<Rightarrow> string \<Rightarrow> error + jsval list" where
  "parseVideos parse videoJson =
     (case snd (safeParse parse videoJson) of
        Inl e \<Rightarrow> Inl (Error ''Failed to parse video list from model output.'')
      | Inr parsedVideos \<Rightarrow>
          if truthy parsedVideos then
            (case getProp parsedVideos ''videos'' of
               Inl e \<Rightarrow> Inl (Error ''Failed to parse video list from model output.'')
             | Inr vs \<Rightarrow> if isArray vs then Inr (elements vs) else Inr [])
          else Inr [])"

text \<open>
  The function in four steps, last step first. \<open>parse\<close> is \<open>JSON.parse\<close> followed by the
  conversion to a value, \<open>stringify\<close> is \<open>JSON.stringify\<close>; \<open>evs\<close> is the trace so far.
\<close>

definition graphStep ::
    "'s service \<Rightarrow> (string \<Rightarrow> error + jsval) \<Rightarrow> (jsval list \<Rightarrow> string) \<Rightarrow> event list \<Rightarrow>
     string \<Rightarrow> jsval list \<Rightarrow> 's \<Rightarrow> event list \<times> (error + jsval list \<times> topicGraphData) \<times> 's" where
  "graphStep generateContent parse stringify evs fullAnalysis videos st =
     (case generateContent st (graphRequest stringify fullAnalysis videos) of
        (Inl e, st') \<Rightarrow>
          (evs @ [Request (graphRequest stringify fullAnalysis videos)], Inl e, st')
      | (Inr graphResponse, st') \<Rightarrow>
          (evs @ [Request (graphRequest stringify fullAnalysis videos),
                  Progress ''Finalizing analysis...'' 95],
           (case responseText graphResponse of
              None \<Rightarrow> Inl (TypeError ''trim'')
            | Some t \<Rightarrow>
                (case buildGraph parse (cleanJson t) of
                   Inl e \<Rightarrow> Inl e
                 | Inr g \<Rightarrow> Inr (videos, g))),
           st'))"

definition videoStep ::
    "'s service \<Rightarrow> (string \<Rightarrow> error + jsval) \<Rightarrow> (jsval list \<Rightarrow> string) \<Rightarrow> event list \<Rightarrow>
     string \<Rightarrow> 's \<Rightarrow> event list \<times> (error + jsval list \<times> topicGraphData) \<times> 's" where
  "videoStep generateContent parse stringify evs fullAnalysis st =
     (case generateContent st (videoRequest fullAnalysis) of
        (Inl e, st') \<Rightarrow> (evs @ [Request (videoRequest fullAnalysis)], Inl e, st')
      | (Inr videoResponse, st') \<Rightarrow>
          (case responseText videoResponse of
             None \<Rightarrow> (evs @ [Request (videoRequest fullAnalysis)], Inl (TypeError ''trim''), st')
           | Some t \<Rightarrow>
               (case parseVideos parse (cleanJson t) of
                  Inl e \<Rightarrow> (evs @ [Request (videoRequest fullAnalysis)], Inl e, st')
                | Inr videos \<Rightarrow>
                    graphStep generateContent parse stringify
                      (evs @ [Request (videoRequest fullAnalysis),
                              Progress ''Constructing knowledge graph...'' 80])
                      fullAnalysis videos st')))"

definition analysisStep ::
    "'s service \<Rightarrow> (string \<Rightarrow> error + jsval) \<Rightarrow> (jsval list \<Rightarrow> string) \<Rightarrow> event list \<Rightarrow>
     string option \<Rightarrow> 's \<Rightarrow> event list \<times> (error + jsval list \<times> topicGraphData) \<times> 's" where
  "analysisStep generateContent parse stringify evs discoveryData st =
     (case generateContent st (analysisRequest discoveryData) of
        (Inl e, st') \<Rightarrow> (evs @ [Request (analysisRequest discoveryData)], Inl e, st')
      | (Inr analysisResponse, st') \<Rightarrow>
          (case responseText analysisResponse of
             None \<Rightarrow>
               (evs @ [Request (analysisRequest discoveryData),
                       Progress ''Structuring video data...'' 60],
                Inl (TypeError ''slice''), st')
           | Some fullAnalysis \<Rightarrow>
               videoStep generateContent parse stringify
                 (evs @ [Request (analysisRequest discoveryData),
                         Progress ''Structuring video data...'' 60])
                 fullAnalysis st'))"

definition analyzeChannelContent ::
    "(error + 's service) \<Rightarrow> (string \<Rightarrow> error + jsval) \<Rightarrow> (jsval list \<Rightarrow> string) \<Rightarrow>
     string \<Rightarrow> 's \<Rightarrow> event list \<times> (error + jsval list \<times> topicGraphData) \<times> 's" where
  "analyzeChannelContent newAI parse stringify channelUrl st =
     (case newAI of
        Inl e \<Rightarrow> ([], Inl e, st)
      | Inr generateContent \<Rightarrow>
          (case generateContent st (discoveryRequest channelUrl) of
             (Inl e, st') \<Rightarrow>
               ([Progress ''Initializing channel discovery...'' 5,
                 Request (discoveryRequest channelUrl)], Inl e, st')
           | (Inr discoveryResponse, st') \<Rightarrow>
               analysisStep generateContent parse stringify
                 [Progress ''Initializing channel discovery...'' 5,
                  Request (discoveryRequest channelUrl),
                  Progress ''Deep scanning video content (this may take a moment)...'' 25]
                 (responseText discoveryResponse) st'))"

text \<open>A service for examples: it answers the \<open>n\<close>-th request with the \<open>n\<close>-th text of a
  script, and two model answers with their parse.\<close>

definition scripted :: "string list \<Rightarrow> nat service" where
  "scripted answers n req =
     (if n < length answers
      then (Inr \<lparr> responseText = Some (answers ! n), candidates = None \<rparr>, Suc n)
      else (Inl (Error ''unavailable''), Suc n))"

definition videoAnswer :: string where
  \<open>videoAnswer = ''{"videos":[{"title":"t"}]}''\<close>

definition graphAnswer :: string where
  \<open>graphAnswer = ''{"graph":{"nodes":[{"relevance":99}],"links":[{"value":0}]}}''\<close>

definition exampleParse :: "string \<Rightarrow> error + jsval" where
  "exampleParse s =
     (if s = videoAnswer then
        Inr (JSObject [(''videos'', JSArray [JSObject [(''title'', JSString ''t'')]])])
      else if s = graphAnswer then
        Inr (JSObject
          [(''graph'', JSObject
             [(''nodes'', JSArray [JSObject [(''relevance'', JSNumber ''99'')]]),
              (''links'', JSArray [JSObject [(''value'', JSNumber ''0'')]])])])
      else Inl (SyntaxError s))"

section \<open>The application state\<close>

text \<open>
  The state of the \<open>App\<close> component (App.tsx): the values of its \<open>useState\<close> hooks, the
  cap of the running progress timer (\<open>None\<close> when no timer runs) and the state change
  that a pending \<open>setTimeout\<close> will make.
\<close>

datatype AppState = IDLE | ANALYZING | DASHBOARD | GENERATING_SLIDES | PRESENTATION

record app =
  url :: string
  appState :: AppState
  graphData :: "topicGraphData option"
  videoList :: "jsval list"
  presentationData :: "jsval option"
  errorMessage :: "string option"
  statusMsg :: string
  progress :: rat
  logs :: "string list"
  customInstructions :: string
  simulationCap :: "rat option"
  pendingState :: "AppState option"

text \<open>What can happen while a handler waits for the service: a progress callback (message,
  value, time of day) or a tick of the timer.\<close>

datatype uiEvent = ProgressCallback string rat string | IntervalTick

definition message :: "error \<Rightarrow> string" where
  "message e = (case e of SyntaxError m \<Rightarrow> m | TypeError m \<Rightarrow> m | Error m \<Rightarrow> m)"

definition addLog :: "string \<Rightarrow> string \<Rightarrow> app \<Rightarrow> app" where
  "addLog time msg s = s \<lparr> logs := (''['' @ time @ ''] '' @ msg) # take 49 (logs s) \<rparr>"

definition startProgressSimulation :: "rat \<Rightarrow> rat \<Rightarrow> app \<Rightarrow> app" where
  "startProgressSimulation startAt capAt s = s \<lparr> progress := startAt, simulationCap := Some capAt \<rparr>"

definition stopProgressSimulation :: "app \<Rightarrow> app" where
  "stopProgressSimulation s = s \<lparr> simulationCap := None \<rparr>"

definition intervalTick :: "app \<Rightarrow> app" where
  "intervalTick s =
     (case simulationCap s of
        None \<Rightarrow> s
      | Some capAt \<Rightarrow> s \<lparr> progress := progressTick exact capAt (progress s) \<rparr>)"

definition whileWaiting :: "rat \<Rightarrow> app \<Rightarrow> uiEvent \<Rightarrow> app" where
  "whileWaiting capAt s ev =
     (case ev of
        IntervalTick \<Rightarrow> intervalTick s
      | ProgressCallback msg p time \<Rightarrow>
          startProgressSimulation p capAt
            ((addLog time msg (s \<lparr> statusMsg := msg \<rparr>)) \<lparr> progress := p \<rparr>))"

text \<open>
  \<open>handleAnalyze\<close> (lines 57 to 88), with the time of day at the start and at the end, the
  events during the wait and the outcome of \<open>analyzeChannelContent\<close>.
\<close>

definition handleAnalyze ::
    "string \<Rightarrow> uiEvent list \<Rightarrow> (error + jsval list \<times> topicGraphData) \<Rightarrow> string \<Rightarrow> app \<Rightarrow> app" where
  "handleAnalyze t0 events outcome t1 s =
     (if url s = [] then s
      else
        (let s1 = startProgressSimulation 0 95
                    (addLog t0 ''Starting channel analysis sequence...''
                      (s \<lparr> appState := ANALYZING, errorMessage := None, logs := [],
                           statusMsg := ''Initializing analysis...'' \<rparr>));
             s2 = foldl (whileWaiting 98) s1 events
         in case outcome of
              Inr (videos, graph) \<Rightarrow>
                (stopProgressSimulation
                   (addLog t1 ''Analysis complete. Loading dashboard.''
                      (s2 \<lparr> videoList := videos, graphData := Some graph \<rparr>)))
                \<lparr> progress := 100, pendingState := Some DASHBOARD \<rparr>
            | Inl err \<Rightarrow>
                (stopProgressSimulation
                   (addLog t1 (''Error: '' @ message err)
                      (s2 \<lparr> errorMessage := Some ''Analysis failed. Please ensure the URL is valid and try again. Gemini might be overloaded.'' \<rparr>)))
                \<lparr> appState := IDLE \<rparr>))"

text \<open>\<open>handleGeneratePresentation\<close> (lines 90 to 118), in the same way, with the outcome of
  \<open>generateRebuttal\<close>.\<close>

definition handleGeneratePresentation ::
    "string \<Rightarrow> uiEvent list \<Rightarrow> (error + jsval) \<Rightarrow> string \<Rightarrow> app \<Rightarrow> app" where
  \<open>handleGeneratePresentation t0 events outcome t1 s =
     (if graphData s = None \<or> videoList s = [] then s
      else
        (let s0 = addLog t0 ''Initializing presentation generation module...''
                    (s \<lparr> appState := GENERATING_SLIDES,
                         statusMsg := ''Preparing presentation...'' \<rparr>);
             s1 = startProgressSimulation 0 90
                    (if customInstructions s \<noteq> []
                     then addLog t0 (''Applied custom instructions: "''
                            @ take 30 (customInstructions s) @ ''..."'') s0
                     else s0);
             s2 = foldl (whileWaiting 95) s1 events
         in case outcome of
              Inr slides \<Rightarrow>
                (stopProgressSimulation
                   (addLog t1 ''Slides generated successfully.''
                      (s2 \<lparr> presentationData := Some slides \<rparr>)))
                \<lparr> progress := 100, pendingState := Some PRESENTATION \<rparr>
            | Inl err \<Rightarrow>
                (stopProgressSimulation
                   (addLog t1 (''Error: '' @ message err)
                      (s2 \<lparr> errorMessage := Some ''Failed to generate presentation. Please try again.'' \<rparr>)))
                \<lparr> appState := DASHBOARD \<rparr>))\<close>

definition timeoutFires :: "app \<Rightarrow> app" where
  "timeoutFires s =
     (case pendingState s of
        None \<Rightarrow> s
      | Some a \<Rightarrow> s \<lparr> appState := a, pendingState := None \<rparr>)"

text \<open>A dashboard after an analysis.\<close>

definition dashboardExample :: app where
  "dashboardExample =
     \<lparr> url = ''https://www.youtube.com/@bottomturtlepodcast'', appState = DASHBOARD,
       graphData = Some \<lparr> nodes = [], links = [], summary = JSString ''s'' \<rparr>,
       videoList = [JSObject [(''title'', JSString ''t'')]],
       presentationData = None, errorMessage = None, statusMsg = [], progress = 100,
       logs = [], customInstructions = [], simulationCap = None, pendingState = None \<rparr>"

text \<open>The progress values of a trace.\<close>

definition progressValues :: "event list \<Rightarrow> nat list" where
  "progressValues evs = concat (map (\<lambda>e. case e of Progress m p \<Rightarrow> [p] | Request r \<Rightarrow> []) evs)"

section \<open>Export and import\<close>

text \<open>
  \<open>handleExport\<close> and \<open>handleImport\<close> (App.tsx, lines 120 to 203). The functions
  \<open>stringify\<close> and \<open>parse\<close> of the TOML library are not part of the program; they are
  parameters of the model and may throw. \<open>orElse a b\<close> is \<open>a || b\<close>.
\<close>

definition orElse :: "jsval \<Rightarrow> jsval \<Rightarrow> jsval" where
  "orElse a b = (if truthy a then a else b)"


definition exportEndpoint :: "jsval \<Rightarrow> error + jsval" where
  "exportEndpoint v = (case getProp v ''id'' of Inl e \<Rightarrow> Inl e | Inr i \<Rightarrow> Inr (orElse i v))"

definition exportLink :: "jsval \<Rightarrow> error + jsval" where
  "exportLink link =
     (case getProp link ''source'' of Inl e \<Rightarrow> Inl e | Inr s \<Rightarrow>
      (case exportEndpoint s of Inl e \<Rightarrow> Inl e | Inr src \<Rightarrow>
       (case getProp link ''target'' of Inl e \<Rightarrow> Inl e | Inr t \<Rightarrow>
        (case exportEndpoint t of Inl e \<Rightarrow> Inl e | Inr tgt \<Rightarrow>
         (case getProp link ''value'' of Inl e \<Rightarrow> Inl e | Inr v \<Rightarrow>
            Inr (JSObject [(''source'', src), (''target'', tgt), (''value'', v)]))))))"














section \<open>Properties of cleanJson\<close>

lemma dropWhile_append_stop:
  "\<not> P y \<Longrightarrow> dropWhile P (xs @ y # ys) = dropWhile P xs @ y # ys"
  by (induction xs) auto

lemma takeWhile_append_stop:
  "\<not> P y \<Longrightarrow> takeWhile P (xs @ y # ys) = takeWhile P xs"
  by (induction xs) auto

lemma replaceCommaBefore_split:
  assumes "\<not> is_space y" "y \<noteq> c"
  shows "replaceCommaBefore c (pre @ y # rest) =
         replaceCommaBefore c pre @ replaceCommaBefore c (y # rest)"
  using assms
proof (induction c pre rule: replaceCommaBefore.induct)
  case (1 c)
  then show ?case by simp
next
  case (2 c x xs)
  have dw: "dropWhile is_space (xs @ y # rest) = dropWhile is_space xs @ y # rest"
    using "2.prems"(1) by (rule dropWhile_append_stop)
  show ?case
  proof (cases "x = CHR '',''")
    case False
    with 2 show ?thesis by simp
  next
    case True
    show ?thesis
    proof (cases "dropWhile is_space xs")
      case Nil
      with 2 True dw show ?thesis by (simp del: dropWhile_eq_Nil_conv)
    next
      case (Cons z zs)
      with 2 True dw show ?thesis by (cases "z = c") simp_all
    qed
  qed
qed

lemma replaceCommaBefore_match:
  assumes "\<forall>w\<in>set ws. is_space w" "\<not> is_space c"
  shows "replaceCommaBefore c (CHR '','' # ws @ c # post) = c # replaceCommaBefore c post"
proof -
  have "dropWhile is_space (ws @ c # post) = c # post"
    using assms by (simp add: dropWhile_append3)
  then show ?thesis by simp
qed

lemma replaceCommaBefore_no_match:
  assumes "\<forall>w\<in>set ws. is_space w" "\<not> is_space y" "y \<noteq> c"
  shows "replaceCommaBefore c (CHR '','' # ws @ y # post)
         = CHR '','' # replaceCommaBefore c (ws @ y # post)"
proof -
  have "dropWhile is_space (ws @ y # post) = y # post"
    using assms by (simp add: dropWhile_append3)
  then show ?thesis using assms(3) by simp
qed

lemma replaceCommaBefore_no_comma:
  "CHR '','' \<notin> set xs \<Longrightarrow> replaceCommaBefore c (xs @ b) = xs @ replaceCommaBefore c b"
  by (induction xs) auto

lemma replaceCommaBefore_hd:
  "\<not> is_digit x \<Longrightarrow> \<not> is_digit c \<Longrightarrow>
   replaceCommaBefore c (x # xs) \<noteq> [] \<and> \<not> is_digit (hd (replaceCommaBefore c (x # xs)))"
  by (auto split: list.splits)

lemma replaceCommaBefore_post:
  "post = [] \<or> \<not> is_digit (hd post) \<Longrightarrow> \<not> is_digit c \<Longrightarrow>
   replaceCommaBefore c post = [] \<or> \<not> is_digit (hd (replaceCommaBefore c post))"
  using replaceCommaBefore_hd by (cases post) auto

lemma capNumbers_split:
  assumes "\<not> is_space y" "\<not> is_digit y"
  shows "capNumbers (pre @ y # rest) = capNumbers pre @ capNumbers (y # rest)"
proof (induction pre rule: capNumbers.induct)
  case 1
  then show ?case by simp
next
  case (2 x xs)
  have dw: "dropWhile is_space (xs @ y # rest) = dropWhile is_space xs @ y # rest"
    using assms(1) by (rule dropWhile_append_stop)
  have tw: "takeWhile is_digit (dropWhile is_space xs @ y # rest)
            = takeWhile is_digit (dropWhile is_space xs)"
    using assms(2) by (rule takeWhile_append_stop)
  have dd: "dropWhile is_digit (dropWhile is_space xs @ y # rest)
            = dropWhile is_digit (dropWhile is_space xs) @ y # rest"
    using assms(2) by (rule dropWhile_append_stop)
  show ?case
  proof (cases "x = CHR '':'' \<and> 10 \<le> length (takeWhile is_digit (dropWhile is_space xs))")
    case True
    have "capNumbers (x # xs @ y # rest)
          = '': 10'' @ capNumbers (dropWhile is_digit (dropWhile is_space xs) @ y # rest)"
      using True by (simp add: dw tw dd)
    moreover have "capNumbers (x # xs) = '': 10'' @ capNumbers (dropWhile is_digit (dropWhile is_space xs))"
      using True by simp
    moreover have "capNumbers (dropWhile is_digit (dropWhile is_space xs) @ y # rest)
          = capNumbers (dropWhile is_digit (dropWhile is_space xs)) @ capNumbers (y # rest)"
      using 2 True by simp
    ultimately show ?thesis by simp
  next
    case False
    have "capNumbers (x # xs @ y # rest) = x # capNumbers (xs @ y # rest)"
      using False by (auto simp add: dw tw dd)
    moreover have "capNumbers (x # xs) = x # capNumbers xs"
      using False by auto
    moreover have "capNumbers (xs @ y # rest) = capNumbers xs @ capNumbers (y # rest)"
      using 2 False by auto
    ultimately show ?thesis by simp
  qed
qed

lemma capNumbers_match:
  assumes "\<forall>w\<in>set ws. is_space w" "\<forall>d\<in>set ds. is_digit d" "10 \<le> length ds"
    and "post = [] \<or> \<not> is_digit (hd post)"
  shows "capNumbers (CHR '':'' # ws @ ds @ post) = '': 10'' @ capNumbers post"
proof -
  have nsd: "\<And>d. is_digit d \<Longrightarrow> \<not> is_space d"
    by (auto simp: is_digit_def is_space_def)
  have tp: "takeWhile is_digit post = []" and dp: "dropWhile is_digit post = post"
    using assms(4) by (cases post; simp)+
  have d1: "dropWhile is_space (ws @ ds @ post) = dropWhile is_space (ds @ post)"
    using assms(1) by (simp add: dropWhile_append2)
  have ds_ne: "ds \<noteq> []" using assms(3) by auto
  have d3: "dropWhile is_space (ds @ post) = ds @ post"
    using ds_ne assms(2) nsd by (cases ds) auto
  have t: "takeWhile is_digit (ds @ post) = ds"
    using assms(2) tp by (simp add: takeWhile_append2)
  have d: "dropWhile is_digit (ds @ post) = post"
    using assms(2) dp by (simp add: dropWhile_append2)
  show ?thesis using d1 d3 t d assms(3) by simp
qed

lemma fix_comma:
  assumes ws: "\<forall>w\<in>set ws. is_space w" and c: "c = CHR ''}'' \<or> c = CHR '']''"
  shows "fixCommasAndNumbers (pre @ CHR '','' # ws @ c # post)
         = fixCommasAndNumbers pre @ c # fixCommasAndNumbers post"
proof -
  let ?A = "replaceCommaBefore (CHR ''}'')" and ?B = "replaceCommaBefore (CHR '']'')"
  have nsc: "\<not> is_space (CHR '','')" "\<not> is_space c"
    using c by (auto simp add: is_space_def)
  have ndc: "\<not> is_digit c"
    using c by (auto simp add: is_digit_def)
  have cc: "c \<noteq> CHR '',''" "c \<noteq> CHR '':''" using c by auto
  have wsc: "CHR '','' \<notin> set ws" using ws nsc by auto
  have cap: "capNumbers (p @ c # q) = capNumbers p @ c # capNumbers q" for p q
  proof -
    have "capNumbers (p @ c # q) = capNumbers p @ capNumbers (c # q)"
      using nsc(2) ndc by (rule capNumbers_split)
    also have "capNumbers (c # q) = c # capNumbers q"
      using cc(2) by simp
    finally show ?thesis .
  qed
  have B: "?B (?A (pre @ CHR '','' # ws @ c # post)) = ?B (?A pre) @ c # ?B (?A post)"
    using c
  proof
    assume c1: "c = CHR ''}''"
    have "?A (pre @ CHR '','' # ws @ c # post) = ?A pre @ ?A (CHR '','' # ws @ c # post)"
      by (rule replaceCommaBefore_split) (simp_all add: is_space_def)
    also have "?A (CHR '','' # ws @ c # post) = c # ?A post"
      unfolding c1 using ws by (rule replaceCommaBefore_match) (simp add: is_space_def)
    finally have 1: "?A (pre @ CHR '','' # ws @ c # post) = ?A pre @ c # ?A post" .
    have "?B (?A pre @ c # ?A post) = ?B (?A pre) @ ?B (c # ?A post)"
      unfolding c1 by (rule replaceCommaBefore_split) (simp_all add: is_space_def)
    also have "?B (c # ?A post) = c # ?B (?A post)"
      using cc(1) by simp
    finally show ?thesis unfolding 1 .
  next
    assume c2: "c = CHR '']''"
    have "?A (pre @ CHR '','' # ws @ c # post) = ?A pre @ ?A (CHR '','' # ws @ c # post)"
      by (rule replaceCommaBefore_split) (simp_all add: is_space_def)
    also have "?A (CHR '','' # ws @ c # post) = CHR '','' # ?A (ws @ c # post)"
      unfolding c2 using ws by (rule replaceCommaBefore_no_match) (simp_all add: is_space_def)
    also have "?A (ws @ c # post) = ws @ ?A (c # post)"
      using wsc by (rule replaceCommaBefore_no_comma)
    also have "?A (c # post) = c # ?A post"
      using cc(1) by simp
    finally have 1: "?A (pre @ CHR '','' # ws @ c # post) = ?A pre @ CHR '','' # ws @ c # ?A post" .
    have "?B (?A pre @ CHR '','' # ws @ c # ?A post) = ?B (?A pre) @ ?B (CHR '','' # ws @ c # ?A post)"
      by (rule replaceCommaBefore_split) (simp_all add: is_space_def)
    also have "?B (CHR '','' # ws @ c # ?A post) = c # ?B (?A post)"
      unfolding c2 using ws by (rule replaceCommaBefore_match) (simp add: is_space_def)
    finally show ?thesis unfolding 1 .
  qed
  show ?thesis
    unfolding fixCommasAndNumbers_def B cap ..
qed

lemma no_comma_spaces_digits:
  assumes ws: "\<forall>w\<in>set ws. is_space w" and ds: "\<forall>d\<in>set ds. is_digit d"
  shows "CHR '','' \<notin> set (ws @ ds)"
proof -
  have "\<not> is_space (CHR '','')" "\<not> is_digit (CHR '','')"
    by (simp_all add: is_space_def is_digit_def)
  then show ?thesis using ws ds by auto
qed

lemma replaceCommaBefore_number:
  assumes nc: "CHR '','' \<notin> set (ws @ ds)" and "c \<noteq> CHR '':''"
  shows "replaceCommaBefore c (p @ CHR '':'' # ws @ ds @ q)
         = replaceCommaBefore c p @ CHR '':'' # ws @ ds @ replaceCommaBefore c q"
proof -
  have nsc: "\<not> is_space (CHR '':'')" by (simp_all add: is_space_def)
  have "replaceCommaBefore c (p @ CHR '':'' # ws @ ds @ q)
          = replaceCommaBefore c p @ replaceCommaBefore c (CHR '':'' # ws @ ds @ q)"
    using nsc assms(2)[symmetric] by (rule replaceCommaBefore_split)
  also have "replaceCommaBefore c (CHR '':'' # ws @ ds @ q)
          = CHR '':'' # replaceCommaBefore c ((ws @ ds) @ q)" by simp
  also have "replaceCommaBefore c ((ws @ ds) @ q) = (ws @ ds) @ replaceCommaBefore c q"
    using nc by (rule replaceCommaBefore_no_comma)
  finally show ?thesis by simp
qed

lemma fix_number:
  assumes ws: "\<forall>w\<in>set ws. is_space w" and ds: "\<forall>d\<in>set ds. is_digit d"
    and len: "10 \<le> length ds" and post: "post = [] \<or> \<not> is_digit (hd post)"
  shows "fixCommasAndNumbers (pre @ CHR '':'' # ws @ ds @ post)
         = fixCommasAndNumbers pre @ '': 10'' @ fixCommasAndNumbers post"
proof -
  have nsc: "\<not> is_space (CHR '':'')" by (simp add: is_space_def)
  have ndc: "\<not> is_digit (CHR '':'')" "\<not> is_digit (CHR ''}'')" "\<not> is_digit (CHR '']'')"
    by (simp_all add: is_digit_def)
  have nc: "CHR '','' \<notin> set (ws @ ds)"
    using ws ds by (rule no_comma_spaces_digits)
  let ?A = "replaceCommaBefore (CHR ''}'')" and ?B = "replaceCommaBefore (CHR '']'')"
  have P: "?B (?A post) = [] \<or> \<not> is_digit (hd (?B (?A post)))"
  proof -
    have "?A post = [] \<or> \<not> is_digit (hd (?A post))"
      using post ndc(2) by (rule replaceCommaBefore_post)
    then show ?thesis using ndc(3) by (rule replaceCommaBefore_post)
  qed
  have 1: "?A (pre @ CHR '':'' # ws @ ds @ post) = ?A pre @ CHR '':'' # ws @ ds @ ?A post"
    using nc by (rule replaceCommaBefore_number) simp
  have 2: "?B (?A pre @ CHR '':'' # ws @ ds @ ?A post)
           = ?B (?A pre) @ CHR '':'' # ws @ ds @ ?B (?A post)"
    using nc by (rule replaceCommaBefore_number) simp
  have "capNumbers (?B (?A pre) @ CHR '':'' # ws @ ds @ ?B (?A post))
        = capNumbers (?B (?A pre)) @ capNumbers (CHR '':'' # ws @ ds @ ?B (?A post))"
    using nsc ndc(1) by (rule capNumbers_split)
  also have "capNumbers (CHR '':'' # ws @ ds @ ?B (?A post)) = '': 10'' @ capNumbers (?B (?A post))"
    using ws ds len P by (rule capNumbers_match)
  finally have 3: "capNumbers (?B (?A pre) @ CHR '':'' # ws @ ds @ ?B (?A post))
        = capNumbers (?B (?A pre)) @ '': 10'' @ capNumbers (?B (?A post))" .
  show ?thesis
    unfolding fixCommasAndNumbers_def 1 2 3 ..
qed

lemma trim_fixed_ends:
  assumes "trim b = b" "b \<noteq> []"
  shows "\<not> is_space (hd b) \<and> \<not> is_space (last b)"
proof -
  have l1: "length (trim b) \<le> length (dropWhile is_space b)"
    unfolding trim_def using length_dropWhile_le[of is_space "rev (dropWhile is_space b)"] by simp
  have h: "\<not> is_space (hd b)"
  proof
    assume "is_space (hd b)"
    then have "length (dropWhile is_space b) < length b"
      using assms(2) by (cases b) (auto simp: less_Suc_eq_le length_dropWhile_le)
    with l1 assms(1) show False by simp
  qed
  then have db: "dropWhile is_space b = b" using assms(2) by (cases b) auto
  have "\<not> is_space (last b)"
  proof
    assume "is_space (last b)"
    then have "is_space (hd (rev b))" using assms(2) by (simp add: hd_rev)
    then have "length (dropWhile is_space (rev b)) < length (rev b)"
      using assms(2) by (cases "rev b") (auto simp: less_Suc_eq_le length_dropWhile_le)
    then have "length (trim b) < length b" by (simp add: trim_def db)
    with assms(1) show False by simp
  qed
  with h show ?thesis ..
qed

lemma stripFence_fenced:
  assumes ws1: "\<forall>w\<in>set ws1. is_space w" and ws2: "\<forall>w\<in>set ws2. is_space w"
    and body: "trim body = body"
    and fence: "fence = ''```json'' \<or> fence = ''```'' \<and> \<not> startsWith (ws1 @ body @ ws2 @ ''```'') ''json''"
  shows "stripFence (fence @ ws1 @ body @ ws2 @ ''```'') = body"
proof -
  define rest where "rest = dropWhile is_space (ws1 @ body @ ws2 @ ''```'')"
  have nb: "\<not> is_space (CHR 0x60)" by (simp add: is_space_def)
  have ends: "body \<noteq> [] \<Longrightarrow> \<not> is_space (hd body) \<and> \<not> is_space (last body)"
    using body by (rule trim_fixed_ends)
  have trail: "stripTrailingFence rest = body"
  proof (cases "body = []")
    case True
    have "dropWhile is_space (ws1 @ ws2 @ ''```'') = ''```''"
      using ws1 ws2 nb by (simp add: dropWhile_append2)
    then have "rest = ''```''" by (simp add: rest_def True)
    then show ?thesis by (simp add: stripTrailingFence_def endsWith_def True)
  next
    case False
    then obtain x xs where b: "body = x # xs" by (cases body) auto
    have "\<not> is_space x" using ends False b by simp
    then have r: "rest = body @ ws2 @ ''```''"
      using ws1 by (simp add: rest_def b dropWhile_append2)
    have e: "endsWith (body @ ws2 @ ''```'') ''```''"
      by (simp add: endsWith_def)
    have tk: "take (length (body @ ws2 @ ''```'') - 3) (body @ ws2 @ ''```'') = body @ ws2"
      by simp
    have "\<not> is_space (hd (rev body))" using ends False by (simp add: hd_rev)
    then have "dropWhile is_space (rev body) = rev body"
      using False by (cases "rev body") auto
    moreover have "dropWhile is_space (rev ws2 @ rev body) = dropWhile is_space (rev body)"
      by (rule dropWhile_append2) (use ws2 in auto)
    ultimately have "rev (dropWhile is_space (rev (body @ ws2))) = body"
      by simp
    then show ?thesis
      unfolding r stripTrailingFence_def using e tk by (simp only: if_True)
  qed
  from fence show ?thesis
  proof
    assume f: "fence = ''```json''"
    have "stripLeading ''```json'' (''```json'' @ ws1 @ body @ ws2 @ ''```'') = rest"
      by (simp add: stripLeading_def startsWith_def rest_def)
    moreover have "startsWith (''```json'' @ ws1 @ body @ ws2 @ ''```'') ''```json''"
      by (simp add: startsWith_def)
    ultimately show ?thesis
      unfolding f stripFence_def using trail by (simp only: if_True)
  next
    assume f: "fence = ''```'' \<and> \<not> startsWith (ws1 @ body @ ws2 @ ''```'') ''json''"
    have "stripLeading ''```'' (''```'' @ ws1 @ body @ ws2 @ ''```'') = rest"
      by (simp add: stripLeading_def startsWith_def rest_def)
    moreover have "\<not> startsWith (''```'' @ ws1 @ body @ ws2 @ ''```'') ''```json''"
      using f by (simp add: startsWith_def)
    moreover have "startsWith (''```'' @ ws1 @ body @ ws2 @ ''```'') ''```''"
      by (simp add: startsWith_def)
    ultimately show ?thesis
      using f trail unfolding stripFence_def by (simp only: if_True if_False)
  qed
qed

lemma trim_fenced:
  assumes "fence = ''```json'' \<or> fence = ''```''"
  shows "trim (fence @ mid @ ''```'') = fence @ mid @ ''```''"
  using assms by (auto simp add: trim_def is_space_def)

lemmas ev = safeParse_def JSON_parse_def parseTokens_def repairJson_def closeString_def trim_def is_space_def
     scanStructures_def endsWith_def is_json_ws_def is_digit_def scanNumber_def numInt_def numFrac_def numExp_def numDigits_def startsWith_def is_hex_def

lemma startsWith_prefix: "startsWith t (p @ q) \<Longrightarrow> startsWith t p"
proof -
  assume "startsWith t (p @ q)"
  then have a: "take (length p + length q) t = p @ q" by (simp add: startsWith_def)
  have "take (length p) (take (length p + length q) t) = take (length p) t"
    by (simp add: min_def)
  with a have "take (length p) t = take (length p) (p @ q)" by simp
  then show ?thesis by (simp add: startsWith_def)
qed

lemma replaceCommaBefore_id: "\<not> hasTrailingComma c t \<Longrightarrow> replaceCommaBefore c t = t"
proof (induction t)
  case Nil
  then show ?case by simp
next
  case (Cons x xs)
  then have ih: "replaceCommaBefore c xs = xs" by simp
  show ?case
  proof (cases "x = CHR '',''")
    case False
    then show ?thesis using ih by simp
  next
    case True
    show ?thesis
    proof (cases "dropWhile is_space xs")
      case Nil
      then show ?thesis using True ih by (simp del: dropWhile_eq_Nil_conv)
    next
      case d: (Cons y ys)
      with Cons.prems True have "y \<noteq> c" by simp
      then show ?thesis using True ih d by simp
    qed
  qed
qed

lemma capNumbers_id: "\<not> hasLongNumber t \<Longrightarrow> capNumbers t = t"
  by (induction t) auto

lemma hasTrailingComma_sound:
  "hasTrailingComma c t \<Longrightarrow>
   \<exists>pre ws post. t = pre @ CHR '','' # ws @ c # post \<and> (\<forall>w\<in>set ws. is_space w)"
proof (induction t)
  case Nil
  then show ?case by simp
next
  case (Cons x xs)
  show ?case
  proof (cases "hasTrailingComma c xs")
    case True
    then obtain pre ws post where "xs = pre @ CHR '','' # ws @ c # post" "\<forall>w\<in>set ws. is_space w"
      using Cons.IH by blast
    then have "x # xs = (x # pre) @ CHR '','' # ws @ c # post \<and> (\<forall>w\<in>set ws. is_space w)"
      by simp
    then show ?thesis by blast
  next
    case False
    with Cons.prems obtain ys where x: "x = CHR '',''" and d: "dropWhile is_space xs = c # ys"
      by (auto split: list.splits)
    have "xs = takeWhile is_space xs @ dropWhile is_space xs" by simp
    then have "x # xs = [] @ CHR '','' # takeWhile is_space xs @ c # ys"
      using x d by simp
    moreover have "\<forall>w\<in>set (takeWhile is_space xs). is_space w"
      by (auto dest: set_takeWhileD)
    ultimately show ?thesis by blast
  qed
qed

lemma hasLongNumber_sound:
  "hasLongNumber t \<Longrightarrow>
   \<exists>pre ws ds post. t = pre @ CHR '':'' # ws @ ds @ post \<and> (\<forall>w\<in>set ws. is_space w)
      \<and> (\<forall>d\<in>set ds. is_digit d) \<and> 10 \<le> length ds"
proof (induction t)
  case Nil
  then show ?case by simp
next
  case (Cons x xs)
  show ?case
  proof (cases "hasLongNumber xs")
    case True
    then obtain pre ws ds post where "xs = pre @ CHR '':'' # ws @ ds @ post"
      "\<forall>w\<in>set ws. is_space w" "\<forall>d\<in>set ds. is_digit d" "10 \<le> length ds"
      using Cons.IH by blast
    then have "x # xs = (x # pre) @ CHR '':'' # ws @ ds @ post \<and> (\<forall>w\<in>set ws. is_space w)
      \<and> (\<forall>d\<in>set ds. is_digit d) \<and> 10 \<le> length ds"
      by simp
    then show ?thesis by blast
  next
    case False
    let ?r = "dropWhile is_space xs"
    from False Cons.prems have x: "x = CHR '':''" and l: "10 \<le> length (takeWhile is_digit ?r)"
      by auto
    have "xs = takeWhile is_space xs @ takeWhile is_digit ?r @ dropWhile is_digit ?r" by simp
    then have "x # xs = [] @ CHR '':'' # takeWhile is_space xs @ takeWhile is_digit ?r @ dropWhile is_digit ?r"
      using x by simp
    moreover have "\<forall>w\<in>set (takeWhile is_space xs). is_space w"
      by (auto dest: set_takeWhileD)
    moreover have "\<forall>d\<in>set (takeWhile is_digit ?r). is_digit d"
      by (auto dest: set_takeWhileD)
    ultimately show ?thesis using l by blast
  qed
qed

lemma hasTrailingComma_complete:
  assumes "\<forall>w\<in>set ws. is_space w" "\<not> is_space c"
  shows "hasTrailingComma c (pre @ CHR '','' # ws @ c # post)"
proof (induction pre)
  case Nil
  have "dropWhile is_space (ws @ c # post) = c # post"
    using assms by (simp add: dropWhile_append3)
  then show ?case by simp
next
  case (Cons x pre)
  then show ?case by simp
qed

lemma hasLongNumber_complete:
  assumes "\<forall>w\<in>set ws. is_space w" "\<forall>d\<in>set ds. is_digit d" "10 \<le> length ds"
  shows "hasLongNumber (pre @ CHR '':'' # ws @ ds @ post)"
proof (induction pre)
  case Nil
  have nsd: "\<And>d. is_digit d \<Longrightarrow> \<not> is_space d"
    by (auto simp: is_digit_def is_space_def)
  have ds_ne: "ds \<noteq> []" using assms(3) by auto
  have "dropWhile is_space (ws @ ds @ post) = dropWhile is_space (ds @ post)"
    using assms(1) by (simp add: dropWhile_append2)
  also have "\<dots> = ds @ post"
    using ds_ne assms(2) nsd by (cases ds) auto
  finally have d: "dropWhile is_space (ws @ ds @ post) = ds @ post" .
  have "takeWhile is_digit (ds @ post) = ds @ takeWhile is_digit post"
    using assms(2) by (simp add: takeWhile_append2)
  then have "10 \<le> length (takeWhile is_digit (ds @ post))"
    using assms(3) by simp
  then show ?case using d by simp
next
  case (Cons x pre)
  then show ?case by simp
qed

lemma fix_nothing:
  assumes c: "\<forall>pre ws c post. t = pre @ CHR '','' # ws @ c # post \<and> (\<forall>w\<in>set ws. is_space w)
                \<longrightarrow> c \<noteq> CHR ''}'' \<and> c \<noteq> CHR '']''"
    and n: "\<forall>pre ws ds post. t = pre @ CHR '':'' # ws @ ds @ post \<and> (\<forall>w\<in>set ws. is_space w)
                \<and> (\<forall>d\<in>set ds. is_digit d) \<longrightarrow> length ds < 10"
  shows "fixCommasAndNumbers t = t"
proof -
  have "\<not> hasTrailingComma (CHR ''}'') t"
    using hasTrailingComma_sound [of "CHR ''}''" t] c by blast
  then have 1: "replaceCommaBefore (CHR ''}'') t = t" by (rule replaceCommaBefore_id)
  have "\<not> hasTrailingComma (CHR '']'') t"
    using hasTrailingComma_sound [of "CHR '']''" t] c by blast
  then have 2: "replaceCommaBefore (CHR '']'') t = t" by (rule replaceCommaBefore_id)
  have "\<not> hasLongNumber t"
  proof
    assume "hasLongNumber t"
    from hasLongNumber_sound [OF this] obtain pre ws ds post where
      "t = pre @ CHR '':'' # ws @ ds @ post" "\<forall>w\<in>set ws. is_space w"
      "\<forall>d\<in>set ds. is_digit d" "10 \<le> length ds" by blast
    with n have "length ds < 10" by blast
    with \<open>10 \<le> length ds\<close> show False by simp
  qed
  then have 3: "capNumbers t = t" by (rule capNumbers_id)
  show ?thesis by (simp add: fixCommasAndNumbers_def 1 2 3)
qed

lemma trim_spaces:
  assumes ws1: "\<forall>w\<in>set ws1. is_space w" and ws2: "\<forall>w\<in>set ws2. is_space w"
  shows "trim (ws1 @ t @ ws2) = trim t"
proof -
  have 1: "dropWhile is_space (ws1 @ t @ ws2) = dropWhile is_space (t @ ws2)"
    using ws1 by (simp add: dropWhile_append2)
  show ?thesis
  proof (cases "\<forall>x\<in>set t. is_space x")
    case True
    then have "dropWhile is_space (t @ ws2) = []" using ws2 by simp
    moreover have "dropWhile is_space t = []" using True by simp
    ultimately show ?thesis by (simp add: trim_def 1 del: dropWhile_eq_Nil_conv)
  next
    case False
    then obtain x where "x \<in> set t" "\<not> is_space x" by blast
    then have "dropWhile is_space (t @ ws2) = dropWhile is_space t @ ws2"
      by (rule dropWhile_append1)
    moreover have "dropWhile is_space (rev ws2 @ rev (dropWhile is_space t))
        = dropWhile is_space (rev (dropWhile is_space t))"
      by (rule dropWhile_append2) (use ws2 in auto)
    ultimately show ?thesis by (simp add: trim_def 1)
  qed
qed

lemma trim_id:
  assumes "s \<noteq> []" "\<not> is_space (hd s)" "\<not> is_space (last s)"
  shows "trim s = s"
proof -
  have 1: "dropWhile is_space s = s" using assms(1,2) by (cases s) auto
  have "\<not> is_space (hd (rev s))" using assms(1,3) by (simp add: hd_rev)
  then have "dropWhile is_space (rev s) = rev s" using assms(1) by (cases "rev s") auto
  then show ?thesis by (simp add: trim_def 1)
qed

lemma stripFence_leading_only:
  assumes ws1: "\<forall>w\<in>set ws1. is_space w"
    and body: "trim body = body" and nf: "\<not> endsWith body ''```''"
    and fence: "fence = ''```json'' \<or> fence = ''```'' \<and> \<not> startsWith (ws1 @ body) ''json''"
  shows "stripFence (trim (fence @ ws1 @ body)) = body"
proof (cases "body = []")
  case True
  have f: "fence = ''```json'' \<or> fence = ''```''" using fence by blast
  have "trim ([] @ fence @ ws1) = trim fence"
    by (rule trim_spaces) (use ws1 in auto)
  moreover have "trim fence = fence" using f by (auto simp: trim_def is_space_def)
  ultimately have t: "trim (fence @ ws1 @ body) = fence" using True by simp
  have "stripFence fence = []"
    using f by (auto simp: stripFence_def stripLeading_def stripTrailingFence_def
        startsWith_def endsWith_def)
  then show ?thesis using t True by simp
next
  case False
  have f: "fence = ''```json'' \<or> fence = ''```''" using fence by blast
  have ends: "\<not> is_space (hd body) \<and> \<not> is_space (last body)"
    using body False by (rule trim_fixed_ends)
  have "trim (fence @ ws1 @ body) = fence @ ws1 @ body"
  proof (rule trim_id)
    show "fence @ ws1 @ body \<noteq> []" using False by simp
    show "\<not> is_space (hd (fence @ ws1 @ body))" using f by (auto simp: is_space_def)
    show "\<not> is_space (last (fence @ ws1 @ body))" using ends False by simp
  qed
  note t = this
  have d: "dropWhile is_space (ws1 @ body) = body"
  proof -
    have "dropWhile is_space (ws1 @ body) = dropWhile is_space body"
      using ws1 by (simp add: dropWhile_append2)
    also have "\<dots> = body" using ends False by (cases body) auto
    finally show ?thesis .
  qed
  have tr: "stripTrailingFence body = body"
    using nf by (simp add: stripTrailingFence_def)
  from fence show ?thesis
  proof
    assume f1: "fence = ''```json''"
    have "startsWith (''```json'' @ ws1 @ body) ''```json''" by (simp add: startsWith_def)
    moreover have "stripLeading ''```json'' (''```json'' @ ws1 @ body) = body"
      using d by (simp add: stripLeading_def startsWith_def)
    ultimately show ?thesis
      unfolding t unfolding f1 stripFence_def using tr by (simp only: if_True)
  next
    assume f2: "fence = ''```'' \<and> \<not> startsWith (ws1 @ body) ''json''"
    have "\<not> startsWith (''```'' @ ws1 @ body) ''```json''"
      using f2 by (simp add: startsWith_def)
    moreover have "startsWith (''```'' @ ws1 @ body) ''```''" by (simp add: startsWith_def)
    moreover have "stripLeading ''```'' (''```'' @ ws1 @ body) = body"
      using d by (simp add: stripLeading_def startsWith_def)
    ultimately show ?thesis
      unfolding t using f2 tr unfolding stripFence_def by (simp only: if_True if_False)
  qed
qed

lemma capNumbers_no_colon:
  "CHR '':'' \<notin> set xs \<Longrightarrow> capNumbers (xs @ b) = xs @ capNumbers b"
  by (induction xs) auto

lemma fix_sign:
  assumes ws: "\<forall>w\<in>set ws. is_space w" and sg: "sg = CHR ''-'' \<or> sg = CHR ''+''"
  shows "fixCommasAndNumbers (pre @ CHR '':'' # ws @ sg # post)
         = fixCommasAndNumbers pre @ CHR '':'' # ws @ sg # fixCommasAndNumbers post"
proof -
  have nsc: "\<not> is_space (CHR '':'')" "\<not> is_space (CHR '','')" "\<not> is_space sg"
    using sg by (auto simp: is_space_def)
  have nd: "\<not> is_digit (CHR '':'')" "\<not> is_digit sg"
    using sg by (auto simp: is_digit_def)
  have sgc: "sg \<noteq> CHR '',''" "sg \<noteq> CHR '':''" using sg by auto
  have wsc: "CHR '','' \<notin> set ws" "CHR '':'' \<notin> set ws" using ws nsc by auto
  have R: "replaceCommaBefore c (p @ CHR '':'' # ws @ sg # q)
           = replaceCommaBefore c p @ CHR '':'' # ws @ sg # replaceCommaBefore c q"
    if "c \<noteq> CHR '':''" for c p q
  proof -
    have "replaceCommaBefore c (p @ CHR '':'' # ws @ sg # q)
          = replaceCommaBefore c p @ replaceCommaBefore c (CHR '':'' # ws @ sg # q)"
      using nsc(1) that [symmetric] by (rule replaceCommaBefore_split)
    also have "replaceCommaBefore c (CHR '':'' # ws @ sg # q)
          = CHR '':'' # replaceCommaBefore c (ws @ sg # q)" by simp
    also have "replaceCommaBefore c (ws @ sg # q) = ws @ replaceCommaBefore c (sg # q)"
      using wsc(1) by (rule replaceCommaBefore_no_comma)
    also have "replaceCommaBefore c (sg # q) = sg # replaceCommaBefore c q"
      using sgc(1) by simp
    finally show ?thesis by simp
  qed
  have C: "capNumbers (p @ CHR '':'' # ws @ sg # q)
           = capNumbers p @ CHR '':'' # ws @ sg # capNumbers q" for p q
  proof -
    have d: "dropWhile is_space (ws @ sg # q) = sg # q"
      using ws nsc(3) by (simp add: dropWhile_append3)
    have "capNumbers (p @ CHR '':'' # ws @ sg # q)
          = capNumbers p @ capNumbers (CHR '':'' # ws @ sg # q)"
      using nsc(1) nd(1) by (rule capNumbers_split)
    also have "capNumbers (CHR '':'' # ws @ sg # q) = CHR '':'' # capNumbers (ws @ sg # q)"
      using d nd(2) by simp
    also have "capNumbers (ws @ sg # q) = ws @ capNumbers (sg # q)"
      using wsc(2) by (rule capNumbers_no_colon)
    also have "capNumbers (sg # q) = sg # capNumbers q"
      using sgc(2) by simp
    finally show ?thesis by simp
  qed
  have R1: "replaceCommaBefore (CHR ''}'') (p @ CHR '':'' # ws @ sg # q)
           = replaceCommaBefore (CHR ''}'') p @ CHR '':'' # ws @ sg # replaceCommaBefore (CHR ''}'') q"
    for p q by (rule R) simp
  have R2: "replaceCommaBefore (CHR '']'') (p @ CHR '':'' # ws @ sg # q)
           = replaceCommaBefore (CHR '']'') p @ CHR '':'' # ws @ sg # replaceCommaBefore (CHR '']'') q"
    for p q by (rule R) simp
  show ?thesis
    unfolding fixCommasAndNumbers_def R1 R2 C ..
qed

lemma no_match_example:
  \<open>(\<forall>p ws' c' q. ''{"a": 7, "n":+12345678901}'' = p @ CHR '','' # ws' @ c' # q \<and> (\<forall>w\<in>set ws'. is_space w)
          \<longrightarrow> c' \<noteq> CHR ''}'' \<and> c' \<noteq> CHR '']'')
      \<and> (\<forall>p ws' ds' q. ''{"a": 7, "n":+12345678901}'' = p @ CHR '':'' # ws' @ ds' @ q \<and> (\<forall>w\<in>set ws'. is_space w)
          \<and> (\<forall>d\<in>set ds'. is_digit d) \<longrightarrow> length ds' < 10)\<close>
proof -
  have a: \<open>\<not> hasTrailingComma (CHR ''}'') ''{"a": 7, "n":+12345678901}''\<close>
    by (simp add: is_space_def)
  have b: \<open>\<not> hasTrailingComma (CHR '']'') ''{"a": 7, "n":+12345678901}''\<close>
    by (simp add: is_space_def)
  have c: \<open>\<not> hasLongNumber ''{"a": 7, "n":+12345678901}''\<close>
    by (simp add: is_space_def is_digit_def)
  have s: "\<not> is_space (CHR ''}'')" "\<not> is_space (CHR '']'')" by (simp_all add: is_space_def)
  show ?thesis
  proof (intro conjI allI impI)
    fix p ws' c' q
    assume h: \<open>''{"a": 7, "n":+12345678901}'' = p @ CHR '','' # ws' @ c' # q \<and> (\<forall>w\<in>set ws'. is_space w)\<close>
    show "c' \<noteq> CHR ''}''"
    proof
      assume "c' = CHR ''}''"
      then have "hasTrailingComma (CHR ''}'') (p @ CHR '','' # ws' @ CHR ''}'' # q)"
        using h s(1) by (intro hasTrailingComma_complete) blast+
      with a h \<open>c' = CHR ''}''\<close> show False by simp
    qed
    show "c' \<noteq> CHR '']''"
    proof
      assume "c' = CHR '']''"
      then have "hasTrailingComma (CHR '']'') (p @ CHR '','' # ws' @ CHR '']'' # q)"
        using h s(2) by (intro hasTrailingComma_complete) blast+
      with b h \<open>c' = CHR '']''\<close> show False by simp
    qed
  next
    fix p ws' ds' q
    assume h: \<open>''{"a": 7, "n":+12345678901}'' = p @ CHR '':'' # ws' @ ds' @ q \<and> (\<forall>w\<in>set ws'. is_space w)
          \<and> (\<forall>d\<in>set ds'. is_digit d)\<close>
    show "length ds' < 10"
    proof (rule ccontr)
      assume "\<not> length ds' < 10"
      then have "10 \<le> length ds'" by simp
      then have "hasLongNumber (p @ CHR '':'' # ws' @ ds' @ q)"
        using h by (intro hasLongNumber_complete) blast+
      with c h show False by simp
    qed
  qed
qed

text \<open>
  Claim C7, as amended. For every input string, \<open>cleanJson\<close> works on the trimmed
  text (first conjunct: white space around the text changes nothing). A text that does
  not start with a fence is handed to the replacements as it is (second conjunct). A
  leading fence, \<open>```json\<close> or \<open>```\<close>, is removed with the white space behind it,
  together with the trailing fence, the \<open>```\<close> that ends the text, and the white space
  in front of it (third conjunct); a leading fence is removed also when the text does not
  end in a fence (fourth conjunct). These three cases cover every trimmed text. The
  replacements \<open>fixCommasAndNumbers\<close> delete every comma that is followed, up to white
  space, by a closing brace or bracket, with that white space (fifth conjunct); replace
  every colon that is followed, up to white space, by a run of ten or more digits,
  together with that white space and the run, by \<open>: 10\<close> (sixth conjunct); leave a
  colon that is followed, up to white space, by a sign as it is, so that a signed number
  is not replaced (seventh conjunct); and return a text with no such comma and no such
  run unchanged, so that a run of fewer than ten digits is kept (eighth conjunct). What is
  behind a replaced run, a fraction or an exponent, is treated as the rest of the text.
\<close>

theorem cleanJson_passes:
  "((\<forall>w\<in>set ws1. is_space w) \<and> (\<forall>w\<in>set ws2. is_space w)
      \<longrightarrow> cleanJson (ws1 @ inp @ ws2) = cleanJson inp)
   \<and> (trim t = t \<and> \<not> startsWith t ''```'' \<longrightarrow> cleanJson t = fixCommasAndNumbers t)
   \<and> ((\<forall>w\<in>set ws1. is_space w) \<and> (\<forall>w\<in>set ws2. is_space w) \<and> trim body = body \<and>
      (fence = ''```json'' \<or> fence = ''```'' \<and> \<not> startsWith (ws1 @ body @ ws2 @ ''```'') ''json'')
      \<longrightarrow> cleanJson (fence @ ws1 @ body @ ws2 @ ''```'') = fixCommasAndNumbers body)
   \<and> ((\<forall>w\<in>set ws1. is_space w) \<and> trim body = body \<and> \<not> endsWith body ''```'' \<and>
      (fence = ''```json'' \<or> fence = ''```'' \<and> \<not> startsWith (ws1 @ body) ''json'')
      \<longrightarrow> cleanJson (fence @ ws1 @ body) = fixCommasAndNumbers body)
   \<and> ((\<forall>w\<in>set ws. is_space w) \<and> (c = CHR ''}'' \<or> c = CHR '']'')
      \<longrightarrow> fixCommasAndNumbers (pre @ CHR '','' # ws @ c # post)
          = fixCommasAndNumbers pre @ c # fixCommasAndNumbers post)
   \<and> ((\<forall>w\<in>set ws. is_space w) \<and> (\<forall>d\<in>set ds. is_digit d) \<and> 10 \<le> length ds \<and>
      (post = [] \<or> \<not> is_digit (hd post))
      \<longrightarrow> fixCommasAndNumbers (pre @ CHR '':'' # ws @ ds @ post)
          = fixCommasAndNumbers pre @ '': 10'' @ fixCommasAndNumbers post)
   \<and> ((\<forall>w\<in>set ws. is_space w) \<and> (sg = CHR ''-'' \<or> sg = CHR ''+'')
      \<longrightarrow> fixCommasAndNumbers (pre @ CHR '':'' # ws @ sg # post)
          = fixCommasAndNumbers pre @ CHR '':'' # ws @ sg # fixCommasAndNumbers post)
   \<and> ((\<forall>p ws' c' q. u = p @ CHR '','' # ws' @ c' # q \<and> (\<forall>w\<in>set ws'. is_space w)
          \<longrightarrow> c' \<noteq> CHR ''}'' \<and> c' \<noteq> CHR '']'')
      \<and> (\<forall>p ws' ds' q. u = p @ CHR '':'' # ws' @ ds' @ q \<and> (\<forall>w\<in>set ws'. is_space w)
          \<and> (\<forall>d\<in>set ds'. is_digit d) \<longrightarrow> length ds' < 10)
      \<longrightarrow> fixCommasAndNumbers u = u)"
proof (intro conjI impI)
  assume "(\<forall>w\<in>set ws1. is_space w) \<and> (\<forall>w\<in>set ws2. is_space w)"
  then have "trim (ws1 @ inp @ ws2) = trim inp"
    by (intro trim_spaces) blast+
  then show "cleanJson (ws1 @ inp @ ws2) = cleanJson inp"
    by (simp only: cleanJson_def)
next
  assume h: "(\<forall>w\<in>set ws1. is_space w) \<and> (\<forall>w\<in>set ws2. is_space w) \<and> trim body = body \<and>
      (fence = ''```json'' \<or> fence = ''```'' \<and> \<not> startsWith (ws1 @ body @ ws2 @ ''```'') ''json'')"
  then have f: "fence = ''```json'' \<or> fence = ''```''" by blast
  have "trim (fence @ (ws1 @ body @ ws2) @ ''```'') = fence @ (ws1 @ body @ ws2) @ ''```''"
    using f by (rule trim_fenced)
  then have "trim (fence @ ws1 @ body @ ws2 @ ''```'') = fence @ ws1 @ body @ ws2 @ ''```''"
    by simp
  moreover have "stripFence (fence @ ws1 @ body @ ws2 @ ''```'') = body"
    using h by (intro stripFence_fenced) blast+
  ultimately show "cleanJson (fence @ ws1 @ body @ ws2 @ ''```'') = fixCommasAndNumbers body"
    by (simp only: cleanJson_def)
next
  assume h: "(\<forall>w\<in>set ws1. is_space w) \<and> trim body = body \<and> \<not> endsWith body ''```'' \<and>
      (fence = ''```json'' \<or> fence = ''```'' \<and> \<not> startsWith (ws1 @ body) ''json'')"
  then have "stripFence (trim (fence @ ws1 @ body)) = body"
    by (intro stripFence_leading_only) blast+
  then show "cleanJson (fence @ ws1 @ body) = fixCommasAndNumbers body"
    by (simp only: cleanJson_def)
next
  assume h: "trim t = t \<and> \<not> startsWith t ''```''"
  have "\<not> startsWith t (''```'' @ ''json'')"
    using h startsWith_prefix by blast
  then have "\<not> startsWith t ''```json''" by simp
  then show "cleanJson t = fixCommasAndNumbers t"
    using h by (simp add: cleanJson_def stripFence_def)
next
  assume "(\<forall>w\<in>set ws. is_space w) \<and> (c = CHR ''}'' \<or> c = CHR '']'')"
  then show "fixCommasAndNumbers (pre @ CHR '','' # ws @ c # post)
          = fixCommasAndNumbers pre @ c # fixCommasAndNumbers post"
    by (intro fix_comma) blast+
next
  assume "(\<forall>w\<in>set ws. is_space w) \<and> (\<forall>d\<in>set ds. is_digit d) \<and> 10 \<le> length ds \<and>
      (post = [] \<or> \<not> is_digit (hd post))"
  then show "fixCommasAndNumbers (pre @ CHR '':'' # ws @ ds @ post)
          = fixCommasAndNumbers pre @ '': 10'' @ fixCommasAndNumbers post"
    by (intro fix_number) blast+
next
  assume "(\<forall>w\<in>set ws. is_space w) \<and> (sg = CHR ''-'' \<or> sg = CHR ''+'')"
  then show "fixCommasAndNumbers (pre @ CHR '':'' # ws @ sg # post)
         = fixCommasAndNumbers pre @ CHR '':'' # ws @ sg # fixCommasAndNumbers post"
    by (intro fix_sign) blast+
next
  assume "(\<forall>p ws' c' q. u = p @ CHR '','' # ws' @ c' # q \<and> (\<forall>w\<in>set ws'. is_space w)
          \<longrightarrow> c' \<noteq> CHR ''}'' \<and> c' \<noteq> CHR '']'')
      \<and> (\<forall>p ws' ds' q. u = p @ CHR '':'' # ws' @ ds' @ q \<and> (\<forall>w\<in>set ws'. is_space w)
          \<and> (\<forall>d\<in>set ds'. is_digit d) \<longrightarrow> length ds' < 10)"
  then show "fixCommasAndNumbers u = u"
    by (intro fix_nothing) blast+
qed

text \<open>Witness for C7: every conjunct at a concrete text, among them a fenced model answer
  with trailing commas and an eleven-digit number, a text with an opening fence only, and
  a text with a short number and a signed eleven-digit number that is returned unchanged.\<close>

theorem cleanJson_passes_witness:
  \<open>cleanJson ('' '' @ ''[1, ]'' @ [CHR 0x0A]) = cleanJson ''[1, ]''
   \<and> cleanJson ''[1, ]'' = fixCommasAndNumbers ''[1, ]''
   \<and> cleanJson (''```json'' @ [CHR 0x0A] @ ''{"a": 12345678901, "b":[1,2, ], }'' @ [CHR 0x0A] @ ''```'')
     = fixCommasAndNumbers ''{"a": 12345678901, "b":[1,2, ], }''
   \<and> cleanJson (''```json'' @ [CHR 0x0A] @ ''[1,2'') = fixCommasAndNumbers ''[1,2''
   \<and> fixCommasAndNumbers (''{"a":[1,2'' @ CHR '','' # '' '' @ CHR '']'' # ''}'')
       = fixCommasAndNumbers ''{"a":[1,2'' @ CHR '']'' # fixCommasAndNumbers ''}''
   \<and> fixCommasAndNumbers (''{"a"'' @ CHR '':'' # '' '' @ ''12345678901'' @ ''}'')
       = fixCommasAndNumbers ''{"a"'' @ '': 10'' @ fixCommasAndNumbers ''}''
   \<and> fixCommasAndNumbers (''{"a"'' @ CHR '':'' # '' '' @ CHR ''-'' # ''12345678901}'')
       = fixCommasAndNumbers ''{"a"'' @ CHR '':'' # '' '' @ CHR ''-'' # fixCommasAndNumbers ''12345678901}''
   \<and> fixCommasAndNumbers ''{"a": 7, "n":+12345678901}'' = ''{"a": 7, "n":+12345678901}''
   \<and> cleanJson (''```json'' @ [CHR 0x0A] @ ''{"a": 12345678901, "b":[1,2, ], }'' @ [CHR 0x0A] @ ''```'')
     = ''{"a": 10, "b":[1,2]}''
   \<and> cleanJson (''```json'' @ [CHR 0x0A] @ ''[1,2'') = ''[1,2''\<close>
proof -
  have w1: \<open>cleanJson ('' '' @ ''[1, ]'' @ [CHR 0x0A]) = cleanJson ''[1, ]''\<close>
    using cleanJson_passes [where ?ws1.0 = "'' ''" and ?ws2.0 = "[CHR 0x0A]"
      and inp = "''[1, ]''", THEN conjunct1]
    by (simp add: is_space_def)
  have w2: \<open>cleanJson ''[1, ]'' = fixCommasAndNumbers ''[1, ]''\<close>
    using cleanJson_passes [where t = "''[1, ]''", THEN conjunct2, THEN conjunct1]
    by (simp add: trim_def is_space_def startsWith_def)
  have w3: \<open>cleanJson (''```json'' @ [CHR 0x0A] @ ''{"a": 12345678901, "b":[1,2, ], }'' @ [CHR 0x0A] @ ''```'')
     = fixCommasAndNumbers ''{"a": 12345678901, "b":[1,2, ], }''\<close>
    using cleanJson_passes [where ?ws1.0 = "[CHR 0x0A]" and ?ws2.0 = "[CHR 0x0A]"
      and fence = "''```json''" and body = \<open>''{"a": 12345678901, "b":[1,2, ], }''\<close>,
      THEN conjunct2, THEN conjunct2, THEN conjunct1]
    by (simp add: trim_def is_space_def)
  have w4: \<open>cleanJson (''```json'' @ [CHR 0x0A] @ ''[1,2'') = fixCommasAndNumbers ''[1,2''\<close>
    using cleanJson_passes [where ?ws1.0 = "[CHR 0x0A]" and fence = "''```json''"
      and body = "''[1,2''", THEN conjunct2, THEN conjunct2, THEN conjunct2, THEN conjunct1]
    by (simp add: trim_def is_space_def endsWith_def)
  have w5: \<open>fixCommasAndNumbers (''{"a":[1,2'' @ CHR '','' # '' '' @ CHR '']'' # ''}'')
       = fixCommasAndNumbers ''{"a":[1,2'' @ CHR '']'' # fixCommasAndNumbers ''}''\<close>
    using cleanJson_passes [where ws = "'' ''" and c = "CHR '']''" and pre = \<open>''{"a":[1,2''\<close>
      and post = "''}''", THEN conjunct2, THEN conjunct2, THEN conjunct2, THEN conjunct2,
      THEN conjunct1]
    by (simp add: is_space_def)
  have w6: \<open>fixCommasAndNumbers (''{"a"'' @ CHR '':'' # '' '' @ ''12345678901'' @ ''}'')
       = fixCommasAndNumbers ''{"a"'' @ '': 10'' @ fixCommasAndNumbers ''}''\<close>
    using cleanJson_passes [where ws = "'' ''" and pre = \<open>''{"a"''\<close> and post = "''}''"
      and ds = "''12345678901''", THEN conjunct2, THEN conjunct2, THEN conjunct2, THEN conjunct2,
      THEN conjunct2, THEN conjunct1]
    by (simp add: is_space_def is_digit_def)
  have w7: \<open>fixCommasAndNumbers (''{"a"'' @ CHR '':'' # '' '' @ CHR ''-'' # ''12345678901}'')
       = fixCommasAndNumbers ''{"a"'' @ CHR '':'' # '' '' @ CHR ''-'' # fixCommasAndNumbers ''12345678901}''\<close>
    using cleanJson_passes [where ws = "'' ''" and pre = \<open>''{"a"''\<close>
      and post = "''12345678901}''" and sg = "CHR ''-''", THEN conjunct2, THEN conjunct2,
      THEN conjunct2, THEN conjunct2, THEN conjunct2, THEN conjunct2, THEN conjunct1]
    by (simp add: is_space_def)
  have w8: \<open>fixCommasAndNumbers ''{"a": 7, "n":+12345678901}'' = ''{"a": 7, "n":+12345678901}''\<close>
    using cleanJson_passes [where u = \<open>''{"a": 7, "n":+12345678901}''\<close>, THEN conjunct2,
      THEN conjunct2, THEN conjunct2, THEN conjunct2, THEN conjunct2, THEN conjunct2,
      THEN conjunct2] no_match_example
    by (rule mp)
  have e1: \<open>fixCommasAndNumbers ''{"a": 12345678901, "b":[1,2, ], }'' = ''{"a": 10, "b":[1,2]}''\<close>
    by (simp add: fixCommasAndNumbers_def is_space_def is_digit_def)
  have e2: \<open>fixCommasAndNumbers ''[1,2'' = ''[1,2''\<close>
    by (simp add: fixCommasAndNumbers_def is_space_def is_digit_def)
  show ?thesis
    using w1 w2 w3 w4 w5 w6 w7 w8 e1 e2 by simp
qed

text \<open>
  Counterexample for C7 as stated: a negative number of eleven digits that follows a
  colon is left as it is, and a number with ten digits before its decimal point is
  replaced by \<open>10.5\<close>, not by \<open>10\<close>.
\<close>

theorem cleanJson_number_counterexample:
  \<open>cleanJson ''{"a":-12345678901}'' = ''{"a":-12345678901}''
   \<and> cleanJson ''{"a":1234567890.5}'' = ''{"a": 10.5}''\<close>
  by (simp add: cleanJson_def fixCommasAndNumbers_def stripFence_def trim_def is_space_def
      is_digit_def startsWith_def)

section \<open>Properties of safeParse\<close>

text \<open>
  Claim C3. When the first \<open>JSON.parse\<close> fails, \<open>safeParse\<close> hands exactly one
  more text to the parser, the repaired one; when that call fails too, the error
  thrown is the error of the first call, and when it succeeds its value is returned.
  This holds for every parser, so for the platform's.
\<close>

theorem safeParse_rethrows_original:
  "parse s = Inl e \<Longrightarrow>
     fst (safeParse parse s) = [s, repairJson s] \<and>
     (case parse (repairJson s) of
        Inl e2 \<Rightarrow> snd (safeParse parse s) = Inl e
      | Inr v \<Rightarrow> snd (safeParse parse s) = Inr v)"
  by (simp add: safeParse_def split: sum.splits)

text \<open>Witness for C3: the text \<open>[1,\<close> is repaired to \<open>[1,]\<close>, which is rejected
  as well; the error carries the original text.\<close>

theorem safeParse_rethrows_original_witness:
  \<open>JSON_parse ''[1,'' = Inl (SyntaxError ''[1,'') \<and>
   JSON_parse (repairJson ''[1,'') = Inl (SyntaxError ''[1,]'') \<and>
   safeParse JSON_parse ''[1,'' = ([''[1,'', ''[1,]''], Inl (SyntaxError ''[1,''))\<close>
proof -
  have h: "JSON_parse ''[1,'' = Inl (SyntaxError ''[1,'')"
    by (simp add: ev)
  have r: "repairJson ''[1,'' = ''[1,]''"
    by (simp add: ev)
  have h2: "JSON_parse ''[1,]'' = Inl (SyntaxError ''[1,]'')"
    by (simp add: ev)
  show ?thesis
    using safeParse_rethrows_original [of JSON_parse "''[1,''" "SyntaxError ''[1,''"] h r h2
    by (cases "safeParse JSON_parse ''[1,''") simp
qed

section \<open>The repair of a truncated text\<close>
















































lemma deliver_wf: "list_all awaiting st \<Longrightarrow> deliver v st = Some (e', st') \<Longrightarrow> wellFormed e' st'"
  by (cases "(v, st)" rule: deliver.cases) auto





lemma closeArray_wf:
  "list_all awaiting (tl st) \<Longrightarrow> closeArray st = Some (e', st') \<Longrightarrow> wellFormed e' st'"
  by (cases st rule: closeArray.cases) (auto dest: deliver_wf)

lemma closeObject_wf:
  "list_all awaiting (tl st) \<Longrightarrow> closeObject st = Some (e', st') \<Longrightarrow> wellFormed e' st'"
  by (cases st rule: closeObject.cases) (auto dest: deliver_wf)


lemma readKey_wf:
  "list_all awaiting (tl st) \<Longrightarrow> readKey t st = Some (e', st') \<Longrightarrow> wellFormed e' st'"
  by (cases "(t, st)" rule: readKey.cases) auto
















section \<open>Properties of the progress timer\<close>

lemma progressTick_ge:
  assumes "\<forall>x y. tenth ar \<le> y \<longrightarrow> x \<le> add ar x y"
  shows "prev \<le> progressTick ar capAt prev"
proof (cases "prev \<ge> capAt")
  case True
  then show ?thesis by (simp add: progressTick_def)
next
  case False
  let ?inc = "max (tenth ar) (divide_by ar (sub ar capAt prev) (fifty ar))"
  have "prev \<le> add ar prev ?inc" using assms by simp
  with False show ?thesis by (simp add: progressTick_def Let_def)
qed

lemma progressTick_le: "prev \<le> capAt \<Longrightarrow> progressTick ar capAt prev \<le> capAt"
  by (simp add: progressTick_def Let_def)

lemma progressAfter_le: "startAt \<le> capAt \<Longrightarrow> progressAfter ar startAt capAt n \<le> capAt"
  by (induction n) (simp_all add: progressAfter_def progressTick_le)

text \<open>
  Claim C8. For a timer started by \<open>startProgressSimulation(startAt, capAt)\<close> the value
  starts at \<open>startAt\<close>, and each tick takes \<open>prev\<close> to
  \<open>min(capAt, prev + max(0.1, (capAt - prev) / 50))\<close>, or leaves it when \<open>prev \<ge> capAt\<close>
  (first and second conjunct); nothing else enters the value. No tick decreases the
  value (third conjunct); the one fact of arithmetic used is that adding a number that is
  at least \<open>0.1\<close> does not make a number smaller, which holds of IEEE doubles as of the
  rationals. The value never exceeds \<open>capAt\<close> (fourth conjunct) when \<open>startAt \<le> capAt\<close>,
  as at every call in the source: the timers run from 0 to 95 and to 90, and from a
  reported progress of at most 95 to 98 and to 95.
\<close>

theorem progress_simulation:
  "progressAfter ar startAt capAt 0 = startAt
   \<and> progressAfter ar startAt capAt (Suc n) =
        (let prev = progressAfter ar startAt capAt n in
         if prev \<ge> capAt then prev
         else min capAt (add ar prev (max (tenth ar) (divide_by ar (sub ar capAt prev) (fifty ar)))))
   \<and> ((\<forall>x y. tenth ar \<le> y \<longrightarrow> x \<le> add ar x y)
        \<longrightarrow> progressAfter ar startAt capAt n \<le> progressAfter ar startAt capAt (Suc n))
   \<and> (startAt \<le> capAt \<longrightarrow> progressAfter ar startAt capAt n \<le> capAt)"
proof (intro conjI impI)
  assume "\<forall>x y. tenth ar \<le> y \<longrightarrow> x \<le> add ar x y"
  then show "progressAfter ar startAt capAt n \<le> progressAfter ar startAt capAt (Suc n)"
    using progressTick_ge by (simp add: progressAfter_def)
next
  assume "startAt \<le> capAt"
  then show "progressAfter ar startAt capAt n \<le> capAt" by (rule progressAfter_le)
next
  show "progressAfter ar startAt capAt 0 = startAt"
    by (simp add: progressAfter_def)
next
  have "progressAfter ar startAt capAt (Suc n)
        = progressTick ar capAt (progressAfter ar startAt capAt n)"
    by (simp add: progressAfter_def)
  then show "progressAfter ar startAt capAt (Suc n) =
        (let prev = progressAfter ar startAt capAt n in
         if prev \<ge> capAt then prev
         else min capAt (add ar prev (max (tenth ar) (divide_by ar (sub ar capAt prev) (fifty ar)))))"
    by (simp only: progressTick_def Let_def)
qed

text \<open>Witness for C8: the timer of \<open>handleAnalyze\<close>, from 0 to 95, and a timer started at 94
  that reaches the cap and stays there.\<close>

theorem progress_simulation_witness:
  "progressAfter exact 0 95 0 = 0
   \<and> progressAfter exact 0 95 1 = 19 / 10
   \<and> progressAfter exact 0 95 1 \<le> progressAfter exact 0 95 2
   \<and> progressAfter exact 0 95 1 \<le> 95
   \<and> progressAfter exact 94 95 7 = 947 / 10
   \<and> progressAfter exact 94 95 10 = 95
   \<and> progressAfter exact 94 95 11 = 95"
proof -
  have h: "\<forall>x y. tenth exact \<le> y \<longrightarrow> x \<le> add exact x y"
    by (simp add: exact_def)
  have m: "progressAfter exact 0 95 1 \<le> progressAfter exact 0 95 (Suc 1)"
    using progress_simulation [of exact 0 95 1, THEN conjunct2, THEN conjunct2, THEN conjunct1] h
    by (rule mp)
  have "(0::rat) \<le> 95" by simp
  with progress_simulation [of exact 0 95 1, THEN conjunct2, THEN conjunct2, THEN conjunct2]
  have b: "progressAfter exact 0 95 1 \<le> 95"
    by (rule mp)
  show ?thesis
    using m b
    by (simp add: progressAfter_def progressTick_def exact_def Let_def numeral_eq_Suc)
qed

section \<open>Properties of the simulation data\<close>

lemma mapE_Inr: "mapE f xs = Inr ys \<Longrightarrow> list_all2 (\<lambda>x y. f x = Inr y) xs ys"
  by (induction xs arbitrary: ys) (auto split: sum.splits)

lemma simulation_ids:
  assumes "mapE nodeIdString ds = Inr ids" "mapE simulationNode ds = Inr ns"
  shows "ids = map nodeId ns"
  using assms
proof (induction ds arbitrary: ids ns)
  case Nil
  then show ?case by simp
next
  case (Cons d ds)
  then show ?case
    by (auto simp: simulationNode_def split: sum.splits)
qed

lemma mapE_total: "\<forall>x\<in>set xs. \<exists>y. f x = Inr y \<Longrightarrow> \<exists>ys. mapE f xs = Inr ys"
proof (induction xs)
  case Nil
  then show ?case by simp
next
  case (Cons x xs)
  then obtain y where y: "f x = Inr y" by auto
  from Cons obtain ys where ys: "mapE f xs = Inr ys" by auto
  show ?case by (simp add: y ys)
qed

lemma nodeIdString_object: "\<exists>i. nodeIdString (JSObject kvs) = Inr i"
  by (simp add: nodeIdString_def getProp_def)

lemma simulationNode_object: "\<exists>n. simulationNode (JSObject kvs) = Inr n"
  by (simp add: simulationNode_def nodeIdString_def getProp_def)

lemma endpointString_total: "v \<noteq> JSNull \<Longrightarrow> \<exists>i. endpointString v = Inr i"
proof (cases "typeofObject v")
  case False
  then show ?thesis by (simp add: endpointString_def)
next
  case True
  assume "v \<noteq> JSNull"
  with True have "(\<exists>xs. v = JSArray xs) \<or> (\<exists>kvs. v = JSObject kvs)"
    by (cases v) (simp_all add: typeofObject_def)
  then have "\<exists>r. getProp v ''id'' = Inr r"
    by (auto simp only: getProp_def jsval.case)
  then show ?thesis using True by (auto simp only: endpointString_def nodeIdString_def if_True sum.case)
qed

lemma simulationLink_object:
  assumes "lookupProp kvs ''source'' \<noteq> JSNull" "lookupProp kvs ''target'' \<noteq> JSNull"
  shows "\<exists>l. simulationLink (JSObject kvs) = Inr l"
proof -
  obtain i j where "endpointString (lookupProp kvs ''source'') = Inr i"
    "endpointString (lookupProp kvs ''target'') = Inr j"
    using assms endpointString_total by blast
  then show ?thesis by (simp only: simulationLink_def getProp_def jsval.case sum.case) simp
qed

text \<open>
  Claim C9. When the effect reaches the simulation, every link handed to it has a source
  and a target that are ids of nodes handed to it; these nodes are the input nodes in
  order, each with the string conversion of its id; and the links handed over are exactly
  the converted input links with both endpoints among these ids, in order (first
  conjunct). The effect reaches the simulation for every mounted graph with at least one
  node whose nodes and links are objects and whose link endpoints are not \<open>null\<close>
  (second conjunct), so for every \<open>TopicGraphData\<close>.
\<close>

theorem simulation_links_reference_nodes:
  "(simulationData mounted dataNodes dataLinks = Inr (Some (ns, ls)) \<longrightarrow>
      (\<forall>l \<in> set ls. source l \<in> nodeId ` set ns \<and> target l \<in> nodeId ` set ns)
      \<and> list_all2 (\<lambda>d n. nodeIdString d = Inr (nodeId n)) dataNodes ns
      \<and> (\<exists>ls0. list_all2 (\<lambda>d l. simulationLink d = Inr l) dataLinks ls0
            \<and> ls = filter (\<lambda>l. source l \<in> nodeId ` set ns \<and> target l \<in> nodeId ` set ns) ls0))
   \<and> ((\<forall>d \<in> set dataNodes. \<exists>kvs. d = JSObject kvs)
       \<and> (\<forall>d \<in> set dataLinks. \<exists>kvs. d = JSObject kvs
             \<and> lookupProp kvs ''source'' \<noteq> JSNull \<and> lookupProp kvs ''target'' \<noteq> JSNull)
       \<and> dataNodes \<noteq> [] \<and> mounted
       \<longrightarrow> (\<exists>ns' ls'. simulationData mounted dataNodes dataLinks = Inr (Some (ns', ls'))))"
proof (intro conjI impI)
  assume a0: "simulationData mounted dataNodes dataLinks = Inr (Some (ns, ls))"
  then obtain ids ls0 where
    a: "mapE nodeIdString dataNodes = Inr ids" and b: "mapE simulationNode dataNodes = Inr ns"
    and l: "mapE simulationLink dataLinks = Inr ls0"
    and c: "ls = filter (\<lambda>d. source d \<in> set ids \<and> target d \<in> set ids) ls0"
    by (auto simp: simulationData_def split: if_splits sum.splits)
  have ids: "ids = map nodeId ns" using a b by (rule simulation_ids)
  show "\<forall>l \<in> set ls. source l \<in> nodeId ` set ns \<and> target l \<in> nodeId ` set ns"
    using c ids by auto
  have "list_all2 (\<lambda>d i. nodeIdString d = Inr i) dataNodes ids"
    using a by (rule mapE_Inr)
  then show "list_all2 (\<lambda>d n. nodeIdString d = Inr (nodeId n)) dataNodes ns"
    unfolding ids by (simp add: list_all2_map2)
  have "list_all2 (\<lambda>d l. simulationLink d = Inr l) dataLinks ls0"
    using l by (rule mapE_Inr)
  moreover have "ls = filter (\<lambda>l. source l \<in> nodeId ` set ns \<and> target l \<in> nodeId ` set ns) ls0"
    using c ids by simp
  ultimately show "\<exists>ls0. list_all2 (\<lambda>d l. simulationLink d = Inr l) dataLinks ls0
            \<and> ls = filter (\<lambda>l. source l \<in> nodeId ` set ns \<and> target l \<in> nodeId ` set ns) ls0"
    by blast
next
  assume h: "(\<forall>d \<in> set dataNodes. \<exists>kvs. d = JSObject kvs)
       \<and> (\<forall>d \<in> set dataLinks. \<exists>kvs. d = JSObject kvs
             \<and> lookupProp kvs ''source'' \<noteq> JSNull \<and> lookupProp kvs ''target'' \<noteq> JSNull)
       \<and> dataNodes \<noteq> [] \<and> mounted"
  from h have hn: "\<forall>d \<in> set dataNodes. \<exists>kvs. d = JSObject kvs"
    and hl: "\<forall>d \<in> set dataLinks. \<exists>kvs. d = JSObject kvs
             \<and> lookupProp kvs ''source'' \<noteq> JSNull \<and> lookupProp kvs ''target'' \<noteq> JSNull"
    and hm: "dataNodes \<noteq> []" "mounted"
    by simp_all
  have "\<forall>d\<in>set dataNodes. \<exists>y. nodeIdString d = Inr y"
    using hn nodeIdString_object by metis
  then obtain ids where 1: "mapE nodeIdString dataNodes = Inr ids"
    using mapE_total by blast
  have "\<forall>d\<in>set dataNodes. \<exists>y. simulationNode d = Inr y"
    using hn simulationNode_object by metis
  then obtain ns' where 2: "mapE simulationNode dataNodes = Inr ns'"
    using mapE_total by blast
  have "\<forall>d\<in>set dataLinks. \<exists>y. simulationLink d = Inr y"
    using hl simulationLink_object by metis
  then obtain ls0 where 3: "mapE simulationLink dataLinks = Inr ls0"
    using mapE_total by blast
  show "\<exists>ns' ls'. simulationData mounted dataNodes dataLinks = Inr (Some (ns', ls'))"
    using hm 1 2 3 by (simp add: simulationData_def)
qed

section \<open>Properties of generateSlideImage\<close>



section \<open>Properties of analyzeChannelContent\<close>

lemma lookup_setProp_same: "lookupProp (setProp kvs k v) k = v"
proof (cases "k \<in> fst ` set kvs")
  case False
  then have "map_of kvs k = None" by (simp add: map_of_eq_None_iff)
  with False show ?thesis by (simp add: lookupProp_def setProp_def map_add_def)
next
  case True
  have "map_of (map (\<lambda>(k', v'). if k' = k then (k', v) else (k', v')) xs) k = Some v"
    if "k \<in> fst ` set xs" for xs
    using that
  proof (induction xs)
    case Nil
    then show ?case by simp
  next
    case (Cons x xs)
    obtain a b where x: "x = (a, b)" by (cases x)
    show ?case
    proof (cases "a = k")
      case True
      then show ?thesis by (simp add: x)
    next
      case False
      with Cons x have "k \<in> fst ` set xs" by auto
      with Cons False show ?thesis by (simp add: x)
    qed
  qed
  with True show ?thesis by (simp add: lookupProp_def setProp_def)
qed

lemma lookup_setProp_other: "k' \<noteq> k \<Longrightarrow> lookupProp (setProp kvs k v) k' = lookupProp kvs k'"
proof -
  assume ne: "k' \<noteq> k"
  have "map_of (map (\<lambda>(a, b). if a = k then (a, v) else (a, b)) xs) k' = map_of xs k'" for xs
    using ne by (induction xs) auto
  then show ?thesis using ne by (simp add: lookupProp_def setProp_def map_add_def split: option.splits)
qed

lemma clampScore_range:
  "1 \<le> hi \<Longrightarrow> \<exists>n. clampScore hi dflt v = JSNumber (showInt n) \<and> 1 \<le> n \<and> n \<le> hi"
  unfolding clampScore_def
  by (rule exI [of _ "min hi (max 1 (parseIntOr v dflt))"]) auto

lemma sanitizeNode_range:
  assumes "sanitizeNode node = Inr n"
  shows "\<exists>kvs r p. n = JSObject kvs
           \<and> lookupProp kvs ''relevance'' = JSNumber (showInt r) \<and> 1 \<le> r \<and> r \<le> 10
           \<and> lookupProp kvs ''popularity'' = JSNumber (showInt p) \<and> 1 \<le> p \<and> p \<le> 10"
proof -
  from assms obtain a b where
    n: "n = JSObject (setProp (setProp (spreadProps node) ''relevance'' (clampScore 10 5 a))
                        ''popularity'' (clampScore 10 5 b))"
    by (auto simp: sanitizeNode_def split: sum.splits)
  obtain r where r: "clampScore 10 5 a = JSNumber (showInt r)" "1 \<le> r" "r \<le> 10"
    using clampScore_range [of 10 5 a] by auto
  obtain p where p: "clampScore 10 5 b = JSNumber (showInt p)" "1 \<le> p" "p \<le> 10"
    using clampScore_range [of 10 5 b] by auto
  have "lookupProp (setProp (setProp (spreadProps node) ''relevance'' (clampScore 10 5 a))
                        ''popularity'' (clampScore 10 5 b)) ''relevance'' = clampScore 10 5 a"
    by (simp add: lookup_setProp_other lookup_setProp_same)
  moreover have "lookupProp (setProp (setProp (spreadProps node) ''relevance'' (clampScore 10 5 a))
                        ''popularity'' (clampScore 10 5 b)) ''popularity'' = clampScore 10 5 b"
    by (simp add: lookup_setProp_same)
  ultimately show ?thesis using n r p by auto
qed

lemma sanitizeLink_range:
  assumes "sanitizeLink link = Inr l"
  shows "\<exists>kvs v. l = JSObject kvs \<and> lookupProp kvs ''value'' = JSNumber (showInt v)
           \<and> 1 \<le> v \<and> v \<le> 5"
proof -
  from assms obtain a where
    l: "l = JSObject (setProp (spreadProps link) ''value'' (clampScore 5 3 a))"
    by (auto simp: sanitizeLink_def split: sum.splits)
  obtain v where v: "clampScore 5 3 a = JSNumber (showInt v)" "1 \<le> v" "v \<le> 5"
    using clampScore_range [of 5 3 a] by auto
  show ?thesis using l v by (auto simp: lookup_setProp_same)
qed

lemma mapE_results: "mapE f xs = Inr ys \<Longrightarrow> \<forall>y\<in>set ys. \<exists>x\<in>set xs. f x = Inr y"
  by (induction xs arbitrary: ys) (auto split: sum.splits)

lemma graphOf_range:
  assumes "graphOf parsedGraph = Inr g"
  shows "(\<forall>n\<in>set (nodes g). \<exists>x. sanitizeNode x = Inr n)
       \<and> (\<forall>l\<in>set (links g). \<exists>x. sanitizeLink x = Inr l)"
proof -
  from assms show ?thesis
    unfolding graphOf_def
    by (auto split: sum.splits if_splits dest!: mapE_results)
qed

lemma buildGraph_Inr: "buildGraph parse t = Inr g \<Longrightarrow> \<exists>v. graphOf v = Inr g"
  by (auto simp: buildGraph_def split: sum.splits)

lemma graphStep_Inr:
  "fst (snd (graphStep gc parse stringify evs a vs st)) = Inr (videos, g)
   \<Longrightarrow> \<exists>t. buildGraph parse t = Inr g"
  by (auto simp: graphStep_def split: prod.splits sum.splits option.splits)

lemma videoStep_Inr:
  "fst (snd (videoStep gc parse stringify evs a st)) = Inr (videos, g)
   \<Longrightarrow> \<exists>t. buildGraph parse t = Inr g"
  by (auto simp: videoStep_def split: prod.splits sum.splits option.splits dest: graphStep_Inr)

lemma analysisStep_Inr:
  "fst (snd (analysisStep gc parse stringify evs d st)) = Inr (videos, g)
   \<Longrightarrow> \<exists>t. buildGraph parse t = Inr g"
  by (auto simp: analysisStep_def split: prod.splits sum.splits option.splits dest: videoStep_Inr)

lemma analyzeChannelContent_Inr:
  "fst (snd (analyzeChannelContent newAI parse stringify channelUrl st)) = Inr (videos, g)
   \<Longrightarrow> \<exists>t. buildGraph parse t = Inr g"
  by (auto simp: analyzeChannelContent_def split: prod.splits sum.splits option.splits
           dest: analysisStep_Inr)

text \<open>
  Claim C2. Whenever \<open>analyzeChannelContent\<close> returns normally, every node of the
  returned graph is an object whose \<open>relevance\<close> and \<open>popularity\<close> are integers from 1 to
  10, and every link is an object whose \<open>value\<close> is an integer from 1 to 5. This holds for
  every service, every parser and every parsed value.
\<close>

theorem analyzeChannelContent_scores_clamped:
  assumes "fst (snd (analyzeChannelContent newAI parse stringify channelUrl st)) = Inr (videos, g)"
  shows "(\<forall>n \<in> set (nodes g). \<exists>kvs r p. n = JSObject kvs
            \<and> lookupProp kvs ''relevance'' = JSNumber (showInt r) \<and> 1 \<le> r \<and> r \<le> 10
            \<and> lookupProp kvs ''popularity'' = JSNumber (showInt p) \<and> 1 \<le> p \<and> p \<le> 10)
       \<and> (\<forall>l \<in> set (links g). \<exists>kvs v. l = JSObject kvs
            \<and> lookupProp kvs ''value'' = JSNumber (showInt v) \<and> 1 \<le> v \<and> v \<le> 5)"
proof -
  from analyzeChannelContent_Inr [OF assms] obtain t where "buildGraph parse t = Inr g"
    by blast
  then obtain v where "graphOf v = Inr g"
    using buildGraph_Inr by blast
  then have "(\<forall>n\<in>set (nodes g). \<exists>x. sanitizeNode x = Inr n)
       \<and> (\<forall>l\<in>set (links g). \<exists>x. sanitizeLink x = Inr l)"
    by (rule graphOf_range)
  then show ?thesis
    using sanitizeNode_range sanitizeLink_range by blast
qed

lemma cleanJson_videoAnswer: "cleanJson videoAnswer = videoAnswer"
  by (simp add: videoAnswer_def cleanJson_def fixCommasAndNumbers_def stripFence_def trim_def
      is_space_def is_digit_def startsWith_def)

lemma cleanJson_graphAnswer: "cleanJson graphAnswer = graphAnswer"
  by (simp add: graphAnswer_def cleanJson_def fixCommasAndNumbers_def stripFence_def trim_def
      is_space_def is_digit_def startsWith_def)


lemma answers_differ: "videoAnswer \<noteq> graphAnswer" "graphAnswer \<noteq> videoAnswer"
  "''oops'' \<noteq> videoAnswer"
  "''oops'' \<noteq> graphAnswer" "repairJson ''oops'' = ''oops''"
  by (simp_all add: videoAnswer_def graphAnswer_def repairJson_def closeString_def trim_def
      is_space_def endsWith_def scanStructures_def)

lemma parseVideos_example:
  "parseVideos exampleParse videoAnswer = Inr [JSObject [(''title'', JSString ''t'')]]"
  by (simp add: parseVideos_def safeParse_def exampleParse_def truthy_def getProp_def
      lookupProp_def isArray_def elements_def)


lemma sanitizeNode_example:
  "sanitizeNode (JSObject [(''relevance'', JSNumber ''99'')])
   = Inr (JSObject [(''relevance'', JSNumber ''10''), (''popularity'', JSNumber ''5'')])"
  by code_simp

lemma sanitizeLink_example:
  "sanitizeLink (JSObject [(''value'', JSNumber ''0'')]) = Inr (JSObject [(''value'', JSNumber ''3'')])"
  by code_simp

lemma buildGraph_example:
  "buildGraph exampleParse graphAnswer
   = Inr \<lparr> nodes = [JSObject [(''relevance'', JSNumber ''10''), (''popularity'', JSNumber ''5'')]],
           links = [JSObject [(''value'', JSNumber ''3'')]],
           summary = JSString ''No summary available.'' \<rparr>"
  by (simp add: buildGraph_def safeParse_def exampleParse_def answers_differ graphOf_def
      optionalChain_def getProp_def lookupProp_def isArray_def elements_def truthy_def
      sanitizeNode_example sanitizeLink_example)

lemma example_run:
  "fst (snd (analyzeChannelContent (Inr (scripted [''d'', ''a'', videoAnswer, graphAnswer]))
        exampleParse (\<lambda>v. ''[]'') ''u'' 0))
   = Inr ([JSObject [(''title'', JSString ''t'')]],
          \<lparr> nodes = [JSObject [(''relevance'', JSNumber ''10''), (''popularity'', JSNumber ''5'')]],
            links = [JSObject [(''value'', JSNumber ''3'')]],
            summary = JSString ''No summary available.'' \<rparr>)"
  by (simp add: analyzeChannelContent_def analysisStep_def videoStep_def graphStep_def
      scripted_def cleanJson_videoAnswer cleanJson_graphAnswer parseVideos_example
      buildGraph_example)

text \<open>Witness for C2: a run whose graph answer has a relevance of 99, no popularity and a
  link value of 0.\<close>

theorem analyzeChannelContent_scores_clamped_witness:
  "fst (snd (analyzeChannelContent (Inr (scripted [''d'', ''a'', videoAnswer, graphAnswer]))
        exampleParse (\<lambda>v. ''[]'') ''u'' 0))
   = Inr ([JSObject [(''title'', JSString ''t'')]],
          \<lparr> nodes = [JSObject [(''relevance'', JSNumber ''10''), (''popularity'', JSNumber ''5'')]],
            links = [JSObject [(''value'', JSNumber ''3'')]],
            summary = JSString ''No summary available.'' \<rparr>)
   \<and> (\<exists>r p. lookupProp [(''relevance'', JSNumber ''10''), (''popularity'', JSNumber ''5'')] ''relevance''
              = JSNumber (showInt r) \<and> 1 \<le> r \<and> r \<le> 10
            \<and> lookupProp [(''relevance'', JSNumber ''10''), (''popularity'', JSNumber ''5'')] ''popularity''
              = JSNumber (showInt p) \<and> 1 \<le> p \<and> p \<le> 10)
   \<and> (\<exists>v. lookupProp [(''value'', JSNumber ''3'')] ''value'' = JSNumber (showInt v)
            \<and> 1 \<le> v \<and> v \<le> 5)"
  using analyzeChannelContent_scores_clamped [OF example_run] example_run
  by simp

lemma requestsOf_append [simp]: "requestsOf (xs @ ys) = requestsOf xs @ requestsOf ys"
  by (simp add: requestsOf_def)

lemma requestsOf_Cons [simp]:
  "requestsOf (Request r # evs) = r # requestsOf evs"
  "requestsOf (Progress m p # evs) = requestsOf evs"
  "requestsOf [] = []"
  by (simp_all add: requestsOf_def)

















lemma simulation_example:
  "simulationData True
     [JSObject [(''id'', JSString ''A'')], JSObject [(''id'', JSNumber ''7'')]]
     [JSObject [(''source'', JSString ''A''), (''target'', JSNumber ''7'')],
      JSObject [(''source'', JSString ''A''), (''target'', JSString ''B'')]]
   = Inr (Some ([\<lparr> nodeProps = [(''id'', JSString ''A'')], nodeId = ''A'' \<rparr>,
                 \<lparr> nodeProps = [(''id'', JSNumber ''7'')], nodeId = ''7'' \<rparr>],
                [\<lparr> linkProps = [(''source'', JSString ''A''), (''target'', JSNumber ''7'')],
                   source = ''A'', target = ''7'' \<rparr>]))"
  by (simp add: simulationData_def nodeIdString_def simulationNode_def simulationLink_def
      endpointString_def typeofObject_def getProp_def lookupProp_def spreadProps_def)

text \<open>Witness for C9: a link between a string id and a numeric id is kept, a link to a
  missing node is dropped.\<close>

theorem simulation_links_reference_nodes_witness:
  "simulationData True
     [JSObject [(''id'', JSString ''A'')], JSObject [(''id'', JSNumber ''7'')]]
     [JSObject [(''source'', JSString ''A''), (''target'', JSNumber ''7'')],
      JSObject [(''source'', JSString ''A''), (''target'', JSString ''B'')]]
   = Inr (Some ([\<lparr> nodeProps = [(''id'', JSString ''A'')], nodeId = ''A'' \<rparr>,
                 \<lparr> nodeProps = [(''id'', JSNumber ''7'')], nodeId = ''7'' \<rparr>],
                [\<lparr> linkProps = [(''source'', JSString ''A''), (''target'', JSNumber ''7'')],
                   source = ''A'', target = ''7'' \<rparr>]))
   \<and> ''A'' \<in> nodeId ` set [\<lparr> nodeProps = [(''id'', JSString ''A'')], nodeId = ''A'' \<rparr>,
                 \<lparr> nodeProps = [(''id'', JSNumber ''7'')], nodeId = ''7'' \<rparr>]
   \<and> ''7'' \<in> nodeId ` set [\<lparr> nodeProps = [(''id'', JSString ''A'')], nodeId = ''A'' \<rparr>,
                 \<lparr> nodeProps = [(''id'', JSNumber ''7'')], nodeId = ''7'' \<rparr>]"
  using simulation_links_reference_nodes
    [of True "[JSObject [(''id'', JSString ''A'')], JSObject [(''id'', JSNumber ''7'')]]"
      "[JSObject [(''source'', JSString ''A''), (''target'', JSNumber ''7'')],
        JSObject [(''source'', JSString ''A''), (''target'', JSString ''B'')]]"
      "[\<lparr> nodeProps = [(''id'', JSString ''A'')], nodeId = ''A'' \<rparr>,
        \<lparr> nodeProps = [(''id'', JSNumber ''7'')], nodeId = ''7'' \<rparr>]"
      "[\<lparr> linkProps = [(''source'', JSString ''A''), (''target'', JSNumber ''7'')],
          source = ''A'', target = ''7'' \<rparr>]",
      THEN conjunct1, THEN mp, OF simulation_example, THEN conjunct1]
    simulation_example
  by simp


section \<open>Properties of the handlers\<close>

lemma whileWaiting_keeps:
  "graphData (whileWaiting capAt s ev) = graphData s
   \<and> videoList (whileWaiting capAt s ev) = videoList s
   \<and> presentationData (whileWaiting capAt s ev) = presentationData s
   \<and> pendingState (whileWaiting capAt s ev) = pendingState s"
  by (simp add: whileWaiting_def intervalTick_def startProgressSimulation_def addLog_def
      split: uiEvent.splits option.splits)

lemma waiting_keeps:
  "graphData (foldl (whileWaiting capAt) s evs) = graphData s
   \<and> videoList (foldl (whileWaiting capAt) s evs) = videoList s
   \<and> presentationData (foldl (whileWaiting capAt) s evs) = presentationData s
   \<and> pendingState (foldl (whileWaiting capAt) s evs) = pendingState s"
  by (induction evs arbitrary: s) (simp_all add: whileWaiting_keeps)

text \<open>
  Claim C5. When \<open>analyzeChannelContent\<close> throws, \<open>handleAnalyze\<close> sets the state to
  \<open>IDLE\<close>; when \<open>generateRebuttal\<close> throws, \<open>handleGeneratePresentation\<close> sets it to
  \<open>DASHBOARD\<close>. In both cases the graph data, the video list and the presentation data
  are those from before the call, whatever happened during the wait, and no state change
  is left pending.
\<close>

theorem failure_returns_to_prior_state:
  "(url s \<noteq> [] \<longrightarrow>
      appState (handleAnalyze t0 evs (Inl err) t1 s) = IDLE
      \<and> graphData (handleAnalyze t0 evs (Inl err) t1 s) = graphData s
      \<and> videoList (handleAnalyze t0 evs (Inl err) t1 s) = videoList s
      \<and> presentationData (handleAnalyze t0 evs (Inl err) t1 s) = presentationData s
      \<and> pendingState (handleAnalyze t0 evs (Inl err) t1 s) = pendingState s)
   \<and> (graphData s \<noteq> None \<and> videoList s \<noteq> [] \<longrightarrow>
      appState (handleGeneratePresentation t0 evs (Inl err) t1 s) = DASHBOARD
      \<and> graphData (handleGeneratePresentation t0 evs (Inl err) t1 s) = graphData s
      \<and> videoList (handleGeneratePresentation t0 evs (Inl err) t1 s) = videoList s
      \<and> presentationData (handleGeneratePresentation t0 evs (Inl err) t1 s) = presentationData s
      \<and> pendingState (handleGeneratePresentation t0 evs (Inl err) t1 s) = pendingState s)"
  by (simp add: handleAnalyze_def handleGeneratePresentation_def Let_def waiting_keeps
      stopProgressSimulation_def addLog_def startProgressSimulation_def)

text \<open>Witness for C5: a failed analysis and a failed presentation from a dashboard.\<close>

theorem failure_returns_to_prior_state_witness:
  "url (dashboardExample \<lparr> appState := IDLE \<rparr>) \<noteq> []
   \<and> appState (handleAnalyze ''10:00'' [IntervalTick, ProgressCallback ''m'' 5 ''10:01'', IntervalTick]
        (Inl (Error ''x'')) ''10:02'' (dashboardExample \<lparr> appState := IDLE \<rparr>)) = IDLE
   \<and> graphData (handleAnalyze ''10:00'' [IntervalTick, ProgressCallback ''m'' 5 ''10:01'', IntervalTick]
        (Inl (Error ''x'')) ''10:02'' (dashboardExample \<lparr> appState := IDLE \<rparr>))
       = Some \<lparr> nodes = [], links = [], summary = JSString ''s'' \<rparr>
   \<and> appState (handleGeneratePresentation ''10:00'' [IntervalTick] (Inl (Error ''x'')) ''10:02''
        dashboardExample) = DASHBOARD
   \<and> videoList (handleGeneratePresentation ''10:00'' [IntervalTick] (Inl (Error ''x'')) ''10:02''
        dashboardExample) = [JSObject [(''title'', JSString ''t'')]]
   \<and> logs (handleGeneratePresentation ''10:00'' [IntervalTick] (Inl (Error ''x'')) ''10:02''
        dashboardExample)
       = [''[10:02] Error: x'', ''[10:00] Initializing presentation generation module...'']"
  using failure_returns_to_prior_state
    [of "dashboardExample \<lparr> appState := IDLE \<rparr>" "''10:00''"
        "[IntervalTick, ProgressCallback ''m'' 5 ''10:01'', IntervalTick]" "Error ''x''" "''10:02''"]
    failure_returns_to_prior_state
    [of dashboardExample "''10:00''" "[IntervalTick]" "Error ''x''" "''10:02''"]
  by (simp add: dashboardExample_def handleGeneratePresentation_def Let_def whileWaiting_def
      intervalTick_def stopProgressSimulation_def addLog_def startProgressSimulation_def
      message_def)

text \<open>
  The values that \<open>analyzeChannelContent\<close> reports to its callback are an initial part
  of 5, 25, 60, 80, 95. So the timers that \<open>handleAnalyze\<close> restarts from a reported
  value, with cap 98, start below their cap.
\<close>

lemma progressValues_append [simp]:
  "progressValues (xs @ ys) = progressValues xs @ progressValues ys"
  by (simp add: progressValues_def)

lemma progressValues_Cons [simp]:
  "progressValues (Progress m p # xs) = p # progressValues xs"
  "progressValues (Request r # xs) = progressValues xs"
  "progressValues [] = []"
  by (simp_all add: progressValues_def)

lemma graphStep_progress:
  "\<exists>k. progressValues (fst (graphStep gc parse stringify evs a vs st))
       = progressValues evs @ take k [95]"
proof (cases "gc st (graphRequest stringify a vs)")
  case (Pair res st')
  show ?thesis
  proof (cases res)
    case (Inl e)
    with Pair show ?thesis by (intro exI [of _ 0]) (simp add: graphStep_def)
  next
    case (Inr r)
    with Pair show ?thesis by (intro exI [of _ 1]) (simp add: graphStep_def)
  qed
qed

lemma videoStep_progress:
  "\<exists>k. progressValues (fst (videoStep gc parse stringify evs a st))
       = progressValues evs @ take k [80, 95]"
proof (cases "gc st (videoRequest a)")
  case (Pair res st')
  show ?thesis
  proof (cases res)
    case (Inl e)
    with Pair show ?thesis by (intro exI [of _ 0]) (simp add: videoStep_def)
  next
    case (Inr r)
    show ?thesis
    proof (cases "responseText r")
      case None
      with Pair Inr show ?thesis by (intro exI [of _ 0]) (simp add: videoStep_def)
    next
      case (Some t)
      show ?thesis
      proof (cases "parseVideos parse (cleanJson t)")
        case (Inl e)
        with Pair \<open>res = Inr r\<close> Some show ?thesis
          by (intro exI [of _ 0]) (simp add: videoStep_def)
      next
        case vs: (Inr vs)
        obtain k where "progressValues (fst (graphStep gc parse stringify
             (evs @ [Request (videoRequest a), Progress ''Constructing knowledge graph...'' 80])
             a vs st'))
           = progressValues (evs @ [Request (videoRequest a),
                Progress ''Constructing knowledge graph...'' 80]) @ take k [95]"
          using graphStep_progress [of gc parse stringify
             "evs @ [Request (videoRequest a), Progress ''Constructing knowledge graph...'' 80]"
             a vs st'] by blast
        with Pair \<open>res = Inr r\<close> Some vs show ?thesis
          by (intro exI [of _ "Suc k"]) (simp add: videoStep_def)
      qed
    qed
  qed
qed

lemma analysisStep_progress:
  "\<exists>k. progressValues (fst (analysisStep gc parse stringify evs d st))
       = progressValues evs @ take k [60, 80, 95]"
proof (cases "gc st (analysisRequest d)")
  case (Pair res st')
  show ?thesis
  proof (cases res)
    case (Inl e)
    with Pair show ?thesis by (intro exI [of _ 0]) (simp add: analysisStep_def)
  next
    case (Inr r)
    show ?thesis
    proof (cases "responseText r")
      case None
      with Pair Inr show ?thesis by (intro exI [of _ 1]) (simp add: analysisStep_def)
    next
      case (Some a)
      obtain k where "progressValues (fst (videoStep gc parse stringify
             (evs @ [Request (analysisRequest d), Progress ''Structuring video data...'' 60])
             a st'))
           = progressValues (evs @ [Request (analysisRequest d),
                Progress ''Structuring video data...'' 60]) @ take k [80, 95]"
        using videoStep_progress [of gc parse stringify
             "evs @ [Request (analysisRequest d), Progress ''Structuring video data...'' 60]"
             a st'] by blast
      with Pair Inr Some show ?thesis
        by (intro exI [of _ "Suc k"]) (simp add: analysisStep_def)
    qed
  qed
qed

lemma analyzeChannelContent_progress:
  "\<exists>k. progressValues (fst (analyzeChannelContent newAI parse stringify channelUrl st))
       = take k [5, 25, 60, 80, 95]"
proof (cases newAI)
  case (Inl e)
  then show ?thesis by (intro exI [of _ 0]) (simp add: analyzeChannelContent_def)
next
  case (Inr gc)
  obtain res st' where c: "gc st (discoveryRequest channelUrl) = (res, st')"
    by (cases "gc st (discoveryRequest channelUrl)")
  show ?thesis
  proof (cases res)
    case (Inl e)
    with Inr c show ?thesis by (intro exI [of _ 1]) (simp add: analyzeChannelContent_def)
  next
    case r: (Inr r)
    obtain k where "progressValues (fst (analysisStep gc parse stringify
          [Progress ''Initializing channel discovery...'' 5,
           Request (discoveryRequest channelUrl),
           Progress ''Deep scanning video content (this may take a moment)...'' 25]
          (responseText r) st'))
       = progressValues [Progress ''Initializing channel discovery...'' 5,
           Request (discoveryRequest channelUrl),
           Progress ''Deep scanning video content (this may take a moment)...'' 25]
         @ take k [60, 80, 95]"
      using analysisStep_progress [of gc parse stringify
          "[Progress ''Initializing channel discovery...'' 5,
           Request (discoveryRequest channelUrl),
           Progress ''Deep scanning video content (this may take a moment)...'' 25]"
          "responseText r" st'] by blast
    with Inr c r show ?thesis
      by (intro exI [of _ "Suc (Suc k)"]) (simp add: analyzeChannelContent_def)
  qed
qed

section \<open>Properties of export and import\<close>











lemma exportLink_missing_source:
  "lookupProp kvs ''source'' = JSUndefined \<Longrightarrow> exportLink (JSObject kvs) = Inl (TypeError ''id'')"
  by (simp add: exportLink_def exportEndpoint_def getProp_def)



end
